theory Spec2Isabelle
  imports Complex_Main "HOL-Library.Multiset" "HOL-Library.Log_Nat"
begin

section \<open>Numbers and strings of the source language\<close>

text \<open>
  The source is TypeScript; its \<open>number\<close> is the IEEE 754 binary64 format. A finite
  number is the rational it denotes, and the two zeros are one value: nothing in the
  modelled code tells them apart (no division by a zero, and both print as \<open>0\<close>).
  Fields that hold whole numbers (identifier, size, hire period) and positions in a
  list are \<open>int\<close>; every whole number of magnitude up to \<open>2 ^ 53\<close> is a number of the
  format, and arithmetic on a size \<open>sz\<close> takes it as the number \<open>Finite (of_int sz)\<close>.
  The score \<open>popularity\<close> is only compared and is \<open>rat\<close>.

  \<open>expo x\<close> is the binary exponent of a rational: \<open>2 ^ expo x \<le> \<bar>x\<bar> < 2 ^ (expo x + 1)\<close>.
\<close>

definition expo :: "rat \<Rightarrow> int" where
  "expo x = (if \<bar>x\<bar> \<ge> 1 then bitlen \<lfloor>\<bar>x\<bar>\<rfloor> - 1 else - bitlen (\<lceil>1 / \<bar>x\<bar>\<rceil> - 1))"

text \<open>Rounding to the nearest integer, a tie to the even neighbour.\<close>

definition round_even :: "rat \<Rightarrow> int" where
  "round_even t =
    (let f = \<lfloor>t\<rfloor>; r = t - of_int f
     in if r < 1 / 2 then f else if 1 / 2 < r then f + 1 else if even f then f else f + 1)"

text \<open>
  \<open>nearest64 x\<close> is \<open>x\<close> rounded to 53 significant bits, ties to even, with the
  exponent unbounded above and held at \<open>-1022\<close> below (the subnormal range). The result
  of an arithmetic operation is the rounded exact result, or an infinity when the
  rounded magnitude reaches \<open>2 ^ 1024\<close>.
\<close>

definition nearest64 :: "rat \<Rightarrow> rat" where
  "nearest64 x =
    (if x = 0 then 0
     else let e = max (expo x) (- 1022); q = 2 powi (e - 52)
          in of_int (round_even (x / q)) * q)"

datatype number = Finite rat | PlusInfinity | MinusInfinity | NaN

definition to_number :: "rat \<Rightarrow> number" where
  "to_number x =
    (let y = nearest64 x
     in if 2 ^ 1024 \<le> y then PlusInfinity
        else if y \<le> - (2 ^ 1024) then MinusInfinity
        else Finite y)"

text \<open>A decimal literal of the source denotes the nearest number.\<close>

definition literal :: "rat \<Rightarrow> number" where
  "literal x = to_number x"

text \<open>The rationals that are finite numbers of the format.\<close>

definition binary64 :: "rat \<Rightarrow> bool" where
  "binary64 x \<longleftrightarrow> nearest64 x = x \<and> \<bar>x\<bar> < 2 ^ 1024"

definition sign_infinity :: "bool \<Rightarrow> number" where
  "sign_infinity negative = (if negative then MinusInfinity else PlusInfinity)"

text \<open>The operators \<open>+\<close>, \<open>*\<close> and \<open>/\<close>.\<close>

fun number_add :: "number \<Rightarrow> number \<Rightarrow> number" where
  "number_add NaN b = NaN"
| "number_add a NaN = NaN"
| "number_add PlusInfinity MinusInfinity = NaN"
| "number_add MinusInfinity PlusInfinity = NaN"
| "number_add PlusInfinity b = PlusInfinity"
| "number_add MinusInfinity b = MinusInfinity"
| "number_add a PlusInfinity = PlusInfinity"
| "number_add a MinusInfinity = MinusInfinity"
| "number_add (Finite x) (Finite y) = to_number (x + y)"

fun number_mult :: "number \<Rightarrow> number \<Rightarrow> number" where
  "number_mult NaN b = NaN"
| "number_mult a NaN = NaN"
| "number_mult (Finite x) (Finite y) = to_number (x * y)"
| "number_mult (Finite x) PlusInfinity = (if x = 0 then NaN else sign_infinity (x < 0))"
| "number_mult (Finite x) MinusInfinity = (if x = 0 then NaN else sign_infinity (0 < x))"
| "number_mult PlusInfinity (Finite y) = (if y = 0 then NaN else sign_infinity (y < 0))"
| "number_mult MinusInfinity (Finite y) = (if y = 0 then NaN else sign_infinity (0 < y))"
| "number_mult PlusInfinity PlusInfinity = PlusInfinity"
| "number_mult MinusInfinity MinusInfinity = PlusInfinity"
| "number_mult PlusInfinity MinusInfinity = MinusInfinity"
| "number_mult MinusInfinity PlusInfinity = MinusInfinity"

text \<open>
  The only division of the modelled code is by the literal \<open>100\<close>. For a zero divisor
  the sign of the source's result follows the sign of the zero, which is not
  represented here; the positive zero is taken.
\<close>

fun number_divide :: "number \<Rightarrow> number \<Rightarrow> number" where
  "number_divide NaN b = NaN"
| "number_divide a NaN = NaN"
| "number_divide (Finite x) (Finite y) =
    (if y = 0 then (if x = 0 then NaN else sign_infinity (x < 0)) else to_number (x / y))"
| "number_divide (Finite x) PlusInfinity = Finite 0"
| "number_divide (Finite x) MinusInfinity = Finite 0"
| "number_divide PlusInfinity (Finite y) = sign_infinity (y < 0)"
| "number_divide MinusInfinity (Finite y) = sign_infinity (0 \<le> y)"
| "number_divide a b = NaN"

text \<open>
  \<open>Math.round\<close> gives the whole number nearest to a finite number, a half towards plus
  infinity, and leaves the other values as they are.
\<close>

fun Math_round :: "number \<Rightarrow> number" where
  "Math_round (Finite x) = Finite (of_int \<lfloor>x + 1 / 2\<rfloor>)"
| "Math_round a = a"

text \<open>The comparisons \<open><=\<close> and \<open><\<close>; every comparison with \<open>NaN\<close> is false.\<close>

fun number_le :: "number \<Rightarrow> number \<Rightarrow> bool" where
  "number_le NaN b = False"
| "number_le a NaN = False"
| "number_le (Finite x) (Finite y) = (x \<le> y)"
| "number_le MinusInfinity b = True"
| "number_le a PlusInfinity = True"
| "number_le a b = False"

fun number_less :: "number \<Rightarrow> number \<Rightarrow> bool" where
  "number_less NaN b = False"
| "number_less a NaN = False"
| "number_less (Finite x) (Finite y) = (x < y)"
| "number_less PlusInfinity b = False"
| "number_less a MinusInfinity = False"
| "number_less a b = True"

text \<open>
  A template literal \<open>`${x}`\<close> applies the number-to-string conversion of the language.
  For a positive finite \<open>x\<close> it takes the least count \<open>k\<close> of decimal digits and the
  digits \<open>s\<close> with \<open>10 ^ (k - 1) \<le> s < 10 ^ k\<close> such that \<open>s * 10 ^ (n - k)\<close> rounds to
  \<open>x\<close> (of two such \<open>s\<close> the one nearer to \<open>x\<close>), and prints them as plain digits, with
  a decimal point, or in exponent notation, depending on \<open>n\<close>.
\<close>

fun digits :: "nat \<Rightarrow> string" where
  "digits n = (if n < 10 then [''0123456789'' ! n]
               else digits (n div 10) @ [''0123456789'' ! (n mod 10)])"

declare digits.simps [simp del]

text \<open>\<open>decimal_exponent x\<close> is the \<open>n\<close> with \<open>10 ^ (n - 1) \<le> x < 10 ^ n\<close>, for \<open>x > 0\<close>.\<close>

definition decimal_exponent :: "rat \<Rightarrow> int" where
  "decimal_exponent x =
    (if 1 \<le> x then int (length (digits (nat \<lfloor>x\<rfloor>)))
     else 1 - int (length (digits (nat (\<lceil>1 / x\<rceil> - 1)))))"

text \<open>
  The \<open>k\<close>-digit candidates for \<open>x\<close> are the two multiples of \<open>10 ^ (n - k)\<close> around it.
\<close>

definition shortest_digits :: "rat \<Rightarrow> int \<Rightarrow> nat \<Rightarrow> int option" where
  "shortest_digits x n k =
    (let unit = 10 powi (n - int k);
         lo = \<lfloor>x / unit\<rfloor>;
         hi = lo + 1;
         lo_ok = (nearest64 (of_int lo * unit) = x);
         hi_ok = (nearest64 (of_int hi * unit) = x);
         lo_gap = x - of_int lo * unit;
         hi_gap = of_int hi * unit - x
     in if lo_ok \<and> hi_ok
        then (if lo_gap < hi_gap \<or> (lo_gap = hi_gap \<and> even lo) then Some lo else Some hi)
        else if lo_ok then Some lo
        else if hi_ok then Some hi
        else None)"

text \<open>
  The search for the least \<open>k\<close>, from \<open>k\<close> upwards. Seventeen digits identify every
  number of the format, so the last equation is not reached from \<open>k = 1\<close> with fuel 17.
\<close>

fun search_digits :: "rat \<Rightarrow> int \<Rightarrow> nat \<Rightarrow> nat \<Rightarrow> nat \<times> int" where
  "search_digits x n k 0 = (k, \<lfloor>x / 10 powi (n - int k)\<rfloor>)"
| "search_digits x n k (Suc fuel) =
    (case shortest_digits x n k of
       Some s \<Rightarrow> (k, s)
     | None \<Rightarrow> search_digits x n (Suc k) fuel)"

definition render :: "int \<Rightarrow> nat \<Rightarrow> int \<Rightarrow> string" where
  "render n k s =
    (let ds = digits (nat s);
         exponent = (if 0 \<le> n - 1 then ''+'' else ''-'') @ digits (nat \<bar>n - 1\<bar>)
     in if int k \<le> n \<and> n \<le> 21 then ds @ replicate (nat (n - int k)) CHR ''0''
        else if 0 < n \<and> n \<le> 21 then take (nat n) ds @ ''.'' @ drop (nat n) ds
        else if - 6 < n \<and> n \<le> 0 then ''0.'' @ replicate (nat (- n)) CHR ''0'' @ ds
        else if k = 1 then ds @ ''e'' @ exponent
        else take 1 ds @ ''.'' @ drop 1 ds @ ''e'' @ exponent)"

text \<open>
  A whole number up to \<open>2 ^ 53\<close> prints as its decimal digits: all whole numbers up to
  that bound are numbers of the format, so no shorter digit string reads back as it.
  When the upper candidate is \<open>10 ^ k\<close>, the digits are \<open>1\<close> with the exponent one
  higher.
\<close>

definition positive_toString :: "rat \<Rightarrow> string" where
  "positive_toString x =
    (if x = of_int \<lfloor>x\<rfloor> \<and> x \<le> 2 ^ 53 then digits (nat \<lfloor>x\<rfloor>)
     else let n = decimal_exponent x;
              (k, s) = search_digits x n 1 17
          in if s = 10 ^ k then render (n + 1) 1 1 else render n k s)"

fun Number_toString :: "number \<Rightarrow> string" where
  "Number_toString NaN = ''NaN''"
| "Number_toString PlusInfinity = ''Infinity''"
| "Number_toString MinusInfinity = ''-Infinity''"
| "Number_toString (Finite x) =
    (if x = 0 then ''0''
     else if x < 0 then ''-'' @ positive_toString (- x)
     else positive_toString x)"

text \<open>
  The dimension strings contain the multiplication sign U+00D7, a single code unit of
  the source string; it is the character with that code here.
\<close>

definition times_sign :: string where
  "times_sign = [CHR 0xD7]"

section \<open>Data model (\<open>src/types/index.ts\<close>)\<close>

datatype LucideIcon = Home | Building | Factory

record UseCase =
  type :: string
  percentage :: int

text \<open>
  The fields \<open>id\<close> and \<open>size\<close> of the source are \<open>id_skip\<close> and \<open>size_skip\<close> here.
  A \<open>null\<close> cost is \<open>None\<close>. The amounts of a raw record are finite, as the payload
  of an interface delivers them; the two computed prices can be any \<open>number\<close>.
\<close>

record SkipApiData =
  id_skip :: int
  size_skip :: int
  hire_period_days :: int
  transport_cost :: "rat option"
  per_tonne_cost :: "rat option"
  price_before_vat :: rat
  vat :: rat
  postcode :: string
  area :: string
  forbidden :: bool
  created_at :: string
  updated_at :: string
  allowed_on_road :: bool
  allows_heavy_waste :: bool

text \<open>The object that \<open>getDisplayProperties\<close> returns; \<open>badge\<close> is optional.\<close>

record DisplayProps =
  name :: string
  scale :: rat
  popularity :: rat
  icon :: LucideIcon
  gradient :: string
  description :: string
  capacity :: string
  dimensions :: string
  weight :: string
  bestFor :: "string list"
  useCases :: "UseCase list"
  badge :: "string option"

record Skip = SkipApiData +
  final_price :: number
  price_with_vat :: number
  name :: string
  scale :: rat
  popularity :: rat
  icon :: LucideIcon
  gradient :: string
  description :: string
  capacity :: string
  dimensions :: string
  weight :: string
  deliveryTime :: string
  bestFor :: "string list"
  restrictions :: "string list"
  useCases :: "UseCase list"
  badge :: "string option"

section \<open>The raw fixture (\<open>rawApiData\<close>)\<close>

definition rawApiData :: "SkipApiData list" where
  "rawApiData = [
    \<lparr> id_skip = 17933, size_skip = 4, hire_period_days = 14, transport_cost = None,
      per_tonne_cost = None, price_before_vat = 278, vat = 20, postcode = ''NR32'',
      area = '''', forbidden = False, created_at = ''2025-04-03T13:51:46.897146'',
      updated_at = ''2025-04-07T13:16:52.813'', allowed_on_road = True,
      allows_heavy_waste = True \<rparr>,
    \<lparr> id_skip = 17934, size_skip = 6, hire_period_days = 14, transport_cost = None,
      per_tonne_cost = None, price_before_vat = 305, vat = 20, postcode = ''NR32'',
      area = '''', forbidden = False, created_at = ''2025-04-03T13:51:46.897146'',
      updated_at = ''2025-04-07T13:16:52.992'', allowed_on_road = True,
      allows_heavy_waste = True \<rparr>,
    \<lparr> id_skip = 17935, size_skip = 8, hire_period_days = 14, transport_cost = None,
      per_tonne_cost = None, price_before_vat = 375, vat = 20, postcode = ''NR32'',
      area = '''', forbidden = False, created_at = ''2025-04-03T13:51:46.897146'',
      updated_at = ''2025-04-07T13:16:53.171'', allowed_on_road = True,
      allows_heavy_waste = True \<rparr>,
    \<lparr> id_skip = 17936, size_skip = 10, hire_period_days = 14, transport_cost = None,
      per_tonne_cost = None, price_before_vat = 400, vat = 20, postcode = ''NR32'',
      area = '''', forbidden = False, created_at = ''2025-04-03T13:51:46.897146'',
      updated_at = ''2025-04-07T13:16:53.339'', allowed_on_road = False,
      allows_heavy_waste = False \<rparr>,
    \<lparr> id_skip = 17937, size_skip = 12, hire_period_days = 14, transport_cost = None,
      per_tonne_cost = None, price_before_vat = 439, vat = 20, postcode = ''NR32'',
      area = '''', forbidden = False, created_at = ''2025-04-03T13:51:46.897146'',
      updated_at = ''2025-04-07T13:16:53.516'', allowed_on_road = False,
      allows_heavy_waste = False \<rparr>,
    \<lparr> id_skip = 17938, size_skip = 14, hire_period_days = 14, transport_cost = None,
      per_tonne_cost = None, price_before_vat = 470, vat = 20, postcode = ''NR32'',
      area = '''', forbidden = False, created_at = ''2025-04-03T13:51:46.897146'',
      updated_at = ''2025-04-07T13:16:53.69'', allowed_on_road = False,
      allows_heavy_waste = False \<rparr>,
    \<lparr> id_skip = 17939, size_skip = 16, hire_period_days = 14, transport_cost = None,
      per_tonne_cost = None, price_before_vat = 496, vat = 20, postcode = ''NR32'',
      area = '''', forbidden = False, created_at = ''2025-04-03T13:51:46.897146'',
      updated_at = ''2025-04-07T13:16:53.876'', allowed_on_road = False,
      allows_heavy_waste = False \<rparr>,
    \<lparr> id_skip = 15124, size_skip = 20, hire_period_days = 14, transport_cost = Some 248,
      per_tonne_cost = Some 248, price_before_vat = 992, vat = 20, postcode = ''NR32'',
      area = '''', forbidden = False, created_at = ''2025-04-03T13:51:40.344435'',
      updated_at = ''2025-04-07T13:16:52.434'', allowed_on_road = False,
      allows_heavy_waste = True \<rparr>,
    \<lparr> id_skip = 15125, size_skip = 40, hire_period_days = 14, transport_cost = Some 248,
      per_tonne_cost = Some 248, price_before_vat = 992, vat = 20, postcode = ''NR32'',
      area = '''', forbidden = False, created_at = ''2025-04-03T13:51:40.344435'',
      updated_at = ''2025-04-07T13:16:52.603'', allowed_on_road = False,
      allows_heavy_waste = False \<rparr> ]"

section \<open>Display properties (\<open>getDisplayProperties\<close>)\<close>

text \<open>
  \<open>sizeConfig\<close> is the object literal keyed by the known sizes, as an association
  list in the order of the source.
\<close>

definition sizeConfig :: "(int \<times> DisplayProps) list" where
  "sizeConfig = [
    (4, \<lparr> DisplayProps.name = ''Compact'', scale = 12 / 10, popularity = 15 / 100,
      icon = Home, gradient = ''from-emerald-400 via-green-500 to-teal-600'',
      description = ''Perfect for small home projects and garden clearances'',
      capacity = ''30-40 bin bags'',
      dimensions = ''4ft '' @ times_sign @ '' 6ft '' @ times_sign @ '' 3ft'',
      weight = ''2-3 tonnes'',
      bestFor = [''Garden waste'', ''Small renovations'', ''Decluttering'', ''DIY projects''],
      useCases = [\<lparr> type = ''Garden clearance'', percentage = 85 \<rparr>,
                  \<lparr> type = ''Small renovation'', percentage = 70 \<rparr>,
                  \<lparr> type = ''Decluttering'', percentage = 90 \<rparr>],
      badge = None \<rparr>),
    (6, \<lparr> DisplayProps.name = ''Standard'', scale = 12 / 10, popularity = 35 / 100,
      icon = Home, gradient = ''from-blue-400 via-sky-500 to-indigo-600'',
      description = ''Most popular choice for home renovations'',
      capacity = ''50-60 bin bags'',
      dimensions = ''6ft '' @ times_sign @ '' 8ft '' @ times_sign @ '' 4ft'',
      weight = ''3-4 tonnes'',
      bestFor = [''Kitchen renovations'', ''Bathroom refits'', ''Medium clear-outs'',
                 ''House moves''],
      useCases = [\<lparr> type = ''Kitchen renovation'', percentage = 95 \<rparr>,
                  \<lparr> type = ''Bathroom refit'', percentage = 90 \<rparr>,
                  \<lparr> type = ''House move'', percentage = 75 \<rparr>],
      badge = Some ''Most Popular'' \<rparr>),
    (8, \<lparr> DisplayProps.name = ''Large'', scale = 12 / 10, popularity = 25 / 100,
      icon = Building, gradient = ''from-rose-400 via-pink-500 to-fuchsia-600'',
      description = ''Ideal for larger home projects and extensions'',
      capacity = ''70-80 bin bags'',
      dimensions = ''8ft '' @ times_sign @ '' 10ft '' @ times_sign @ '' 4.5ft'',
      weight = ''4-5 tonnes'',
      bestFor = [''Full room renovations'', ''Extensions'', ''Large garden projects'',
                 ''Commercial fit-outs''],
      useCases = [\<lparr> type = ''Full renovation'', percentage = 90 \<rparr>,
                  \<lparr> type = ''Extension work'', percentage = 85 \<rparr>,
                  \<lparr> type = ''Commercial project'', percentage = 70 \<rparr>],
      badge = None \<rparr>),
    (10, \<lparr> DisplayProps.name = ''Extra Large'', scale = 12 / 10, popularity = 2 / 10,
      icon = Building, gradient = ''from-violet-400 via-purple-500 to-indigo-700'',
      description = ''Perfect for major home projects and large clearouts'',
      capacity = ''90-100 bin bags'',
      dimensions = ''10ft '' @ times_sign @ '' 12ft '' @ times_sign @ '' 5ft'',
      weight = ''5-6 tonnes'',
      bestFor = [''Major renovations'', ''Large extensions'', ''Commercial projects'',
                 ''Construction waste''],
      useCases = [\<lparr> type = ''Major renovation'', percentage = 95 \<rparr>,
                  \<lparr> type = ''Large extension'', percentage = 85 \<rparr>,
                  \<lparr> type = ''Construction'', percentage = 80 \<rparr>],
      badge = None \<rparr>),
    (12, \<lparr> DisplayProps.name = ''Commercial'', scale = 12 / 10, popularity = 15 / 100,
      icon = Factory, gradient = ''from-amber-400 via-orange-500 to-red-600'',
      description = ''Heavy-duty solution for major construction'',
      capacity = ''110-120 bin bags'',
      dimensions = ''12ft '' @ times_sign @ '' 14ft '' @ times_sign @ '' 5.5ft'',
      weight = ''6-8 tonnes'',
      bestFor = [''Major construction'', ''Industrial projects'', ''Large demolitions'',
                 ''Commercial builds''],
      useCases = [\<lparr> type = ''Construction'', percentage = 95 \<rparr>,
                  \<lparr> type = ''Demolition'', percentage = 90 \<rparr>,
                  \<lparr> type = ''Industrial'', percentage = 80 \<rparr>],
      badge = None \<rparr>) ]"

text \<open>
  The default configuration for a size that \<open>sizeConfig\<close> does not list. The size is
  the number \<open>Finite (of_int sz)\<close>; \<open>1.2\<close>, \<open>1.5\<close>, \<open>0.4\<close>, \<open>0.6\<close> and \<open>0.8\<close> are
  literals.
\<close>

definition defaultConfig :: "int \<Rightarrow> DisplayProps" where
  "defaultConfig sz =
    \<lparr> DisplayProps.name = Number_toString (Finite (of_int sz)) @ '' Yard Skip'',
      scale = 12 / 10,
      popularity = 1 / 10,
      icon = (if sz \<ge> 16 then Factory else if sz \<ge> 10 then Building else Home),
      gradient =
        (if sz \<ge> 40 then ''from-slate-600 via-gray-700 to-zinc-800''
         else if sz \<ge> 20 then ''from-red-500 via-red-700 to-red-900''
         else if sz \<ge> 16 then ''from-cyan-400 via-teal-500 to-emerald-600''
         else if sz \<ge> 14 then ''from-indigo-400 via-blue-600 to-blue-900''
         else if sz \<ge> 12 then ''from-yellow-400 via-amber-500 to-orange-600''
         else ''from-slate-400 via-gray-500 to-zinc-600''),
      description =
        (if sz \<ge> 20 then ''Industrial-grade solution for major projects''
         else if sz \<ge> 16 then ''Large commercial and construction projects''
         else if sz \<ge> 12 then ''Heavy-duty commercial applications''
         else Number_toString (Finite (of_int sz)) @ '' yard skip for medium to large projects''),
      capacity =
        Number_toString (Math_round (number_mult (Finite (of_int sz)) (literal 10))) @ ''-'' @
        Number_toString (Math_round (number_mult (Finite (of_int sz)) (literal 12))) @
        '' bin bags'',
      dimensions =
        Number_toString (Math_round (number_mult (Finite (of_int sz)) (literal (12 / 10)))) @
        ''ft '' @ times_sign @ '' '' @
        Number_toString (Math_round (number_mult (Finite (of_int sz)) (literal (15 / 10)))) @
        ''ft '' @ times_sign @ '' '' @
        Number_toString
          (Math_round (number_add (number_mult (Finite (of_int sz)) (literal (4 / 10)))
             (literal 3))) @
        ''ft'',
      weight =
        Number_toString (Math_round (number_mult (Finite (of_int sz)) (literal (6 / 10)))) @
        ''-'' @
        Number_toString (Math_round (number_mult (Finite (of_int sz)) (literal (8 / 10)))) @
        '' tonnes'',
      bestFor =
        (if sz \<ge> 20
         then [''Industrial projects'', ''Major construction'', ''Large demolitions'',
               ''Commercial builds'']
         else if sz \<ge> 16
         then [''Large construction'', ''Commercial projects'', ''Major demolitions'',
               ''Industrial work'']
         else if sz \<ge> 12
         then [''Construction projects'', ''Commercial renovation'', ''Large clearouts'',
               ''Industrial use'']
         else [''Medium construction'', ''Large renovation'', ''Commercial projects'',
               ''Bulk waste'']),
      useCases =
        [\<lparr> type = (if sz \<ge> 20 then ''Industrial''
                    else if sz \<ge> 16 then ''Large construction''
                    else if sz \<ge> 12 then ''Construction''
                    else ''Large project''),
           percentage = 90 \<rparr>,
         \<lparr> type = (if sz \<ge> 20 then ''Major construction''
                    else if sz \<ge> 16 then ''Commercial''
                    else if sz \<ge> 12 then ''Commercial renovation''
                    else ''Commercial''),
           percentage = 80 \<rparr>,
         \<lparr> type = ''Bulk clearance'', percentage = 70 \<rparr>],
      badge = None \<rparr>"

definition getDisplayProperties :: "SkipApiData \<Rightarrow> DisplayProps" where
  "getDisplayProperties apiData =
    (let sz = size_skip apiData in
     case map_of sizeConfig sz of
       Some config \<Rightarrow> config
     | None \<Rightarrow> defaultConfig sz)"

section \<open>Decoration (\<open>transformApiDataToSkip\<close>) and the catalog (\<open>skipData\<close>)\<close>

text \<open>
  A cost is truthy when it is neither \<open>null\<close> nor zero: the source tests
  \<open>apiData.transport_cost\<close> itself, not \<open>apiData.transport_cost !== null\<close>.
\<close>

definition truthy :: "rat option \<Rightarrow> bool" where
  "truthy c = (case c of None \<Rightarrow> False | Some x \<Rightarrow> x \<noteq> 0)"

text \<open>
  The object spread \<open>...apiData\<close> copies the fields of the raw record, and
  \<open>...displayProps\<close> those of the display properties; no field name occurs in both.
  The three \<open>push\<close> calls extend the local list \<open>restrictions\<close> in turn.
\<close>

definition transformApiDataToSkip :: "SkipApiData \<Rightarrow> Skip" where
  "transformApiDataToSkip apiData =
    (let displayProps = getDisplayProperties apiData;
         priceWithVat =
           Math_round
             (number_mult (Finite (price_before_vat apiData))
                (number_add (literal 1) (number_divide (Finite (vat apiData)) (literal 100))));
         finalPrice = (if truthy (transport_cost apiData)
                       then number_add priceWithVat (Finite (the (transport_cost apiData)))
                       else priceWithVat);
         restrictions = [];
         restrictions = (if \<not> allowed_on_road apiData
                         then restrictions @ [''Road permit required'']
                         else restrictions);
         restrictions = (if \<not> allows_heavy_waste apiData
                         then restrictions @ [''Heavy waste restrictions apply'']
                         else restrictions);
         restrictions = (if truthy (transport_cost apiData)
                         then restrictions @ [''Additional transport costs apply'']
                         else restrictions)
     in \<lparr> id_skip = id_skip apiData,
          size_skip = size_skip apiData,
          hire_period_days = hire_period_days apiData,
          transport_cost = transport_cost apiData,
          per_tonne_cost = per_tonne_cost apiData,
          price_before_vat = price_before_vat apiData,
          vat = vat apiData,
          postcode = postcode apiData,
          area = area apiData,
          forbidden = forbidden apiData,
          created_at = created_at apiData,
          updated_at = updated_at apiData,
          allowed_on_road = allowed_on_road apiData,
          allows_heavy_waste = allows_heavy_waste apiData,
          final_price = finalPrice,
          price_with_vat = priceWithVat,
          name = DisplayProps.name displayProps,
          scale = DisplayProps.scale displayProps,
          popularity = DisplayProps.popularity displayProps,
          icon = DisplayProps.icon displayProps,
          gradient = DisplayProps.gradient displayProps,
          description = DisplayProps.description displayProps,
          capacity = DisplayProps.capacity displayProps,
          dimensions = DisplayProps.dimensions displayProps,
          weight = DisplayProps.weight displayProps,
          deliveryTime = (if truthy (transport_cost apiData) then ''Next day'' else ''Same day''),
          bestFor = DisplayProps.bestFor displayProps,
          restrictions = restrictions,
          useCases = DisplayProps.useCases displayProps,
          badge = DisplayProps.badge displayProps \<rparr>)"

text \<open>
  \<open>skipData\<close> is the module constant built from the fixture; \<open>skipData_of\<close> is the
  same pipeline over any sequence of raw records. \<open>Array.prototype.sort\<close> is stable,
  and so is \<open>sort_key\<close>.
\<close>

definition skipData_of :: "SkipApiData list \<Rightarrow> Skip list" where
  "skipData_of raw =
     sort_key size_skip (map transformApiDataToSkip (filter (\<lambda>skip. \<not> forbidden skip) raw))"

definition skipData :: "Skip list" where
  "skipData = skipData_of rawApiData"

section \<open>Catalog queries (\<open>getMostPopularSkipIndex\<close>, \<open>getSkipIndexBySize\<close>)\<close>

text \<open>
  Both functions of the source read the module constant \<open>skipData\<close>; here the catalog
  is their first argument. The \<open>forEach\<close> loop updates two local variables, carried
  as the pair \<open>(mostPopularIndex, highestPopularity)\<close>; \<open>index\<close> is the position of
  the entry the callback is called on.
\<close>

fun mostPopular_forEach :: "Skip list \<Rightarrow> int \<Rightarrow> int \<times> rat \<Rightarrow> int \<times> rat" where
  "mostPopular_forEach [] index (mostPopularIndex, highestPopularity) =
     (mostPopularIndex, highestPopularity)"
| "mostPopular_forEach (skip # rest) index (mostPopularIndex, highestPopularity) =
     mostPopular_forEach rest (index + 1)
       (if popularity skip > highestPopularity then (index, popularity skip)
        else (mostPopularIndex, highestPopularity))"

definition getMostPopularSkipIndex :: "Skip list \<Rightarrow> int" where
  "getMostPopularSkipIndex catalog = fst (mostPopular_forEach catalog 0 (0, 0))"

text \<open>\<open>Array.prototype.findIndex\<close>: the first position that satisfies the test, else \<open>-1\<close>.\<close>

fun findIndex_from :: "('a \<Rightarrow> bool) \<Rightarrow> 'a list \<Rightarrow> int \<Rightarrow> int" where
  "findIndex_from P [] index = - 1"
| "findIndex_from P (x # xs) index = (if P x then index else findIndex_from P xs (index + 1))"

definition findIndex :: "('a \<Rightarrow> bool) \<Rightarrow> 'a list \<Rightarrow> int" where
  "findIndex P xs = findIndex_from P xs 0"

definition getSkipIndexBySize :: "Skip list \<Rightarrow> int \<Rightarrow> int" where
  "getSkipIndexBySize catalog sz =
    (let index = findIndex (\<lambda>skip. size_skip skip = sz) catalog
     in if index \<noteq> - 1 then index else getMostPopularSkipIndex catalog)"

section \<open>The wizard (\<open>MultiStepBuilder\<close>, \<open>Navigation\<close>)\<close>

text \<open>The step table of the source, without the icons.\<close>

record Step =
  id_step :: int
  title :: string
  component :: string

definition steps :: "Step list" where
  "steps = [
    \<lparr> id_step = 1, title = ''Postcode'', component = ''PostcodeStep'' \<rparr>,
    \<lparr> id_step = 2, title = ''Waste Type'', component = ''WasteTypeStep'' \<rparr>,
    \<lparr> id_step = 3, title = ''Select Skip'', component = ''SelectSkipStep'' \<rparr>,
    \<lparr> id_step = 4, title = ''Permit Check'', component = ''PermitCheckStep'' \<rparr>,
    \<lparr> id_step = 5, title = ''Choose Date'', component = ''ChooseDateStep'' \<rparr>,
    \<lparr> id_step = 6, title = ''Payment'', component = ''PaymentStep'' \<rparr> ]"

text \<open>
  The two state variables of \<open>MultiStepBuilder\<close>. The source never calls
  \<open>setCanGoNext\<close>, so no operation below writes \<open>canGoNext\<close>.
\<close>

record MultiStepBuilder_state =
  currentStep :: int
  canGoNext :: bool

definition initial_state :: MultiStepBuilder_state where
  "initial_state = \<lparr> currentStep = 1, canGoNext = True \<rparr>"

definition handleNext :: "MultiStepBuilder_state \<Rightarrow> MultiStepBuilder_state" where
  "handleNext s =
    (if currentStep s < int (length steps) then s\<lparr> currentStep := currentStep s + 1 \<rparr>
     else s)"

definition handlePrevious :: "MultiStepBuilder_state \<Rightarrow> MultiStepBuilder_state" where
  "handlePrevious s =
    (if currentStep s > 1 then s\<lparr> currentStep := currentStep s - 1 \<rparr> else s)"

datatype StepContent =
  PostcodeStep | WasteTypeStep | SelectSkipStep | PermitCheckStep | ChooseDateStep | PaymentStep

definition renderStepContent :: "MultiStepBuilder_state \<Rightarrow> StepContent" where
  "renderStepContent s =
    (if currentStep s = 1 then PostcodeStep
     else if currentStep s = 2 then WasteTypeStep
     else if currentStep s = 3 then SelectSkipStep
     else if currentStep s = 4 then PermitCheckStep
     else if currentStep s = 5 then ChooseDateStep
     else if currentStep s = 6 then PaymentStep
     else PostcodeStep)"

text \<open>A sequence of calls of the two handlers, from any state.\<close>

datatype handler = HandleNext | HandlePrevious

fun call :: "handler \<Rightarrow> MultiStepBuilder_state \<Rightarrow> MultiStepBuilder_state" where
  "call HandleNext s = handleNext s"
| "call HandlePrevious s = handlePrevious s"

definition run :: "handler list \<Rightarrow> MultiStepBuilder_state \<Rightarrow> MultiStepBuilder_state" where
  "run hs s = fold call hs s"

text \<open>
  \<open>Navigation\<close> wires the handlers to two buttons. The Previous button is disabled on
  step 1. The Next button exists only while \<open>currentStep < totalSteps\<close> and is
  disabled when \<open>canGoNext\<close> is false. A click on a disabled or absent button does
  nothing.
\<close>

datatype click = ClickPrevious | ClickNext

fun Navigation :: "click \<Rightarrow> MultiStepBuilder_state \<Rightarrow> MultiStepBuilder_state" where
  "Navigation ClickPrevious s = (if currentStep s = 1 then s else handlePrevious s)"
| "Navigation ClickNext s =
    (if currentStep s < int (length steps)
     then (if \<not> canGoNext s then s else handleNext s)
     else s)"

definition clicks :: "click list \<Rightarrow> MultiStepBuilder_state \<Rightarrow> MultiStepBuilder_state" where
  "clicks cs s = fold Navigation cs s"

section \<open>The skip tabs (\<open>Tabs\<close>, \<open>moveSelectedTabToTop\<close>)\<close>

record Tab =
  title :: string
  "value" :: string

text \<open>
  The state of the \<open>Tabs\<close> component. An array slot or a variable that holds
  \<open>undefined\<close> is \<open>None\<close>.
\<close>

record Tabs_state =
  active :: "Tab option"
  tabs :: "Tab option list"
  hovering :: bool

text \<open>Reading \<open>xs[i]\<close>: \<open>undefined\<close> outside the array.\<close>

definition at_index :: "'a option list \<Rightarrow> int \<Rightarrow> 'a option" where
  "at_index xs i = (if 0 \<le> i \<and> i < int (length xs) then xs ! nat i else None)"

definition Tabs_initial :: "Tab list \<Rightarrow> Tabs_state" where
  "Tabs_initial propTabs =
    \<lparr> active = at_index (map Some propTabs) 0, tabs = map Some propTabs, hovering = False \<rparr>"

text \<open>
  \<open>xs.splice(start, 1)\<close>: a negative start counts from the end, the start is clamped
  to the array, and at most one element is removed. The result is the removed
  elements and the array that remains.
\<close>

definition splice1 :: "int \<Rightarrow> 'a list \<Rightarrow> 'a list \<times> 'a list" where
  "splice1 start xs =
    (let len = int (length xs);
         actualStart = (if start < 0 then max (len + start) 0 else min start len);
         deleteCount = min 1 (len - actualStart)
     in (take (nat deleteCount) (drop (nat actualStart) xs),
         take (nat actualStart) xs @ drop (nat (actualStart + deleteCount)) xs))"

definition moveSelectedTabToTop :: "Tab list \<Rightarrow> int \<Rightarrow> Tabs_state \<Rightarrow> Tabs_state" where
  "moveSelectedTabToTop propTabs idx s =
    (let newTabs = map Some propTabs;
         (selectedTab, newTabs) = splice1 idx newTabs;
         newTabs = at_index selectedTab 0 # newTabs
     in s\<lparr> tabs := newTabs, active := at_index newTabs 0 \<rparr>)"

section \<open>The documented behaviour, for comparison\<close>

text \<open>
  The size bands as the specification lists them: \<open>size \<ge> 40\<close>, \<open>size \<ge> 20\<close>,
  \<open>size \<ge> 16\<close>, \<open>size \<ge> 14\<close>, \<open>size \<ge> 12\<close>, else.
\<close>

definition documented_band :: "int \<Rightarrow> nat" where
  "documented_band sz =
    (if sz \<ge> 40 then 5 else if sz \<ge> 20 then 4 else if sz \<ge> 16 then 3
     else if sz \<ge> 14 then 2 else if sz \<ge> 12 then 1 else 0)"

text \<open>
  The restriction list as the specification derives it, where a transport cost is
  present when it is not \<open>null\<close>.
\<close>

definition documented_restrictions :: "SkipApiData \<Rightarrow> string list" where
  "documented_restrictions r =
    (if \<not> allowed_on_road r then [''Road permit required''] else []) @
    (if \<not> allows_heavy_waste r then [''Heavy waste restrictions apply''] else []) @
    (if transport_cost r \<noteq> None then [''Additional transport costs apply''] else [])"

text \<open>
  The price with tax as the specification computes it: the exact value of
  \<open>price_before_vat * (1 + vat / 100)\<close>, rounded half up.
\<close>

definition documented_price_with_tax :: "SkipApiData \<Rightarrow> int" where
  "documented_price_with_tax r = \<lfloor>price_before_vat r * (1 + vat r / 100) + 1 / 2\<rfloor>"

section \<open>Basic facts\<close>

lemma transform_api_fields:
  "size_skip (transformApiDataToSkip r) = size_skip r"
  "forbidden (transformApiDataToSkip r) = forbidden r"
  "id_skip (transformApiDataToSkip r) = id_skip r"
  "transport_cost (transformApiDataToSkip r) = transport_cost r"
  by (simp_all add: transformApiDataToSkip_def Let_def)

lemma transform_restrictions:
  "restrictions (transformApiDataToSkip r) =
    (if \<not> allowed_on_road r then [''Road permit required''] else []) @
    (if \<not> allows_heavy_waste r then [''Heavy waste restrictions apply''] else []) @
    (if truthy (transport_cost r) then [''Additional transport costs apply''] else [])"
  by (simp add: transformApiDataToSkip_def Let_def)

lemma transform_popularity:
  "popularity (transformApiDataToSkip r) = DisplayProps.popularity (getDisplayProperties r)"
  by (simp add: transformApiDataToSkip_def Let_def)

section \<open>Rounding to the number format\<close>

lemma floor_numeral_div_rat:
  "\<lfloor>(numeral a / numeral b :: rat)\<rfloor> = numeral a div numeral b"
  by (metis floor_divide_of_int_eq of_int_numeral)

lemma round_even_of_int [simp]: "round_even (of_int k) = k"
  by (simp add: round_even_def)

lemma round_even_close: "\<bar>of_int (round_even t) - t\<bar> \<le> 1 / 2"
proof -
  define f where "f = \<lfloor>t\<rfloor>"
  have "of_int f \<le> t" "t < of_int f + 1"
    unfolding f_def by linarith+
  then show ?thesis
    unfolding round_even_def Let_def f_def [symmetric] by (auto simp: abs_if)
qed

lemma round_even_mono: "t \<le> u \<Longrightarrow> round_even t \<le> round_even u"
proof -
  assume le: "t \<le> u"
  then have fl: "\<lfloor>t\<rfloor> \<le> \<lfloor>u\<rfloor>" by (rule floor_mono)
  show ?thesis
  proof (cases "\<lfloor>t\<rfloor> = \<lfloor>u\<rfloor>")
    case True
    with le show ?thesis
      unfolding round_even_def Let_def by (auto; linarith)
  next
    case False
    with fl have "\<lfloor>t\<rfloor> + 1 \<le> \<lfloor>u\<rfloor>" by simp
    moreover have "round_even t \<le> \<lfloor>t\<rfloor> + 1"
      unfolding round_even_def Let_def by auto
    moreover have "\<lfloor>u\<rfloor> \<le> round_even u"
      unfolding round_even_def Let_def by auto
    ultimately show ?thesis by linarith
  qed
qed

lemma round_even_minus: "round_even (- t) = - round_even t"
proof (cases "t = of_int \<lfloor>t\<rfloor>")
  case True
  then obtain k where "t = of_int k" by metis
  then have "round_even (- t) = - k \<and> round_even t = k"
    by (metis of_int_minus round_even_of_int)
  then show ?thesis by simp
next
  case False
  then have frac: "of_int \<lfloor>t\<rfloor> < t" "t < of_int \<lfloor>t\<rfloor> + 1"
    by (linarith, linarith)
  have fm: "\<lfloor>- t\<rfloor> = - \<lfloor>t\<rfloor> - 1"
    using frac by (intro floor_unique) simp_all
  show ?thesis
    unfolding round_even_def Let_def fm using frac by (auto; linarith)
qed

lemma powi_two_pos: "0 < (2::rat) powi e"
  by (simp add: power_int_def)

lemma expo_bounds:
  assumes "x \<noteq> 0"
  shows "2 powi expo x \<le> \<bar>x\<bar> \<and> \<bar>x\<bar> < 2 powi (expo x + 1)"
proof (cases "\<bar>x\<bar> \<ge> 1")
  case True
  let ?m = "\<lfloor>\<bar>x\<bar>\<rfloor>"
  from True have pos: "0 < ?m" by simp
  from bitlen_bounds [OF pos] have b: "2 ^ nat (bitlen ?m - 1) \<le> ?m" "?m < 2 ^ nat (bitlen ?m)"
    by simp_all
  have l1: "1 \<le> bitlen ?m"
    using pos by (simp add: bitlen_alt_def)
  have e: "expo x = bitlen ?m - 1"
    using True by (simp add: expo_def)
  have lo: "(2::rat) powi (bitlen ?m - 1) \<le> \<bar>x\<bar>"
  proof -
    have "(2::rat) powi (bitlen ?m - 1) = of_int (2 ^ nat (bitlen ?m - 1))"
      using l1 by (simp add: power_int_def)
    also have "\<dots> \<le> of_int ?m"
      using b(1) by (simp only: of_int_le_iff)
    also have "\<dots> \<le> \<bar>x\<bar>" by simp
    finally show ?thesis .
  qed
  have hi: "\<bar>x\<bar> < (2::rat) powi (bitlen ?m)"
  proof -
    have "\<bar>x\<bar> < of_int (?m + 1)" by linarith
    also have "\<dots> \<le> of_int (2 ^ nat (bitlen ?m))"
      using b(2) by (simp only: of_int_le_iff)
    also have "\<dots> = (2::rat) powi (bitlen ?m)"
      using l1 by (simp add: power_int_def)
    finally show ?thesis .
  qed
  from lo hi show ?thesis by (simp add: e)
next
  case False
  then have small: "\<bar>x\<bar> < 1" by simp
  from assms have xpos: "0 < \<bar>x\<bar>" by simp
  let ?c = "\<lceil>1 / \<bar>x\<bar>\<rceil>"
  have inv: "1 < 1 / \<bar>x\<bar>"
    using small xpos by simp
  then have c2: "2 \<le> ?c" by linarith
  then have pos: "0 < ?c - 1" by simp
  let ?t = "bitlen (?c - 1)"
  from bitlen_bounds [OF pos] have b: "2 ^ nat (?t - 1) \<le> ?c - 1" "?c - 1 < 2 ^ nat ?t"
    by simp_all
  have t1: "1 \<le> ?t"
    using pos by (simp add: bitlen_alt_def)
  have e: "expo x = - ?t"
    using False by (simp add: expo_def)
  have up: "1 / \<bar>x\<bar> \<le> 2 ^ nat ?t"
  proof -
    from b(2) have "?c \<le> 2 ^ nat ?t" by simp
    then have "1 / \<bar>x\<bar> \<le> of_int (2 ^ nat ?t)" by (simp only: ceiling_le_iff)
    then show ?thesis by simp
  qed
  have down: "2 ^ nat (?t - 1) < 1 / \<bar>x\<bar>"
  proof -
    from b(1) have "2 ^ nat (?t - 1) < ?c" by simp
    then have "of_int (2 ^ nat (?t - 1)) < 1 / \<bar>x\<bar>" by (simp only: less_ceiling_iff)
    then show ?thesis by simp
  qed
  have lo: "(2::rat) powi (- ?t) \<le> \<bar>x\<bar>"
  proof -
    have "(2::rat) powi (- ?t) = 1 / 2 ^ nat ?t"
      using t1 by (simp add: power_int_def field_simps)
    also have "\<dots> \<le> \<bar>x\<bar>"
      using up xpos by (simp add: field_simps)
    finally show ?thesis .
  qed
  have hi: "\<bar>x\<bar> < (2::rat) powi (- ?t + 1)"
  proof -
    have "\<bar>x\<bar> < 1 / 2 ^ nat (?t - 1)"
      using down xpos by (simp add: field_simps)
    also have "\<dots> = (2::rat) powi (- ?t + 1)"
    proof (cases "?t = 1")
      case True
      then show ?thesis by simp
    next
      case False
      with t1 have "- ?t + 1 < 0" "nat (- (- ?t + 1)) = nat (?t - 1)" by simp_all
      then show ?thesis by (simp add: power_int_def field_simps)
    qed
    finally show ?thesis .
  qed
  from lo hi show ?thesis by (simp add: e)
qed

lemma powi2_add: "(2::rat) powi (a + b) = 2 powi a * 2 powi b"
  by (simp add: power_int_add)

lemma powi2_diff: "(2::rat) powi (a - b) = 2 powi a / 2 powi b"
  by (simp add: power_int_diff)

lemma powi2_mono: "a \<le> b \<Longrightarrow> (2::rat) powi a \<le> 2 powi b"
  by (simp add: power_int_increasing)

lemma powi2_less_cancel: "(2::rat) powi a < 2 powi b \<Longrightarrow> a < b"
  using powi2_mono [of b a] by (cases "a < b") simp_all

lemma powi2_nat: "0 \<le> d \<Longrightarrow> (2::rat) powi d = of_int (2 ^ nat d)"
  by (simp add: power_int_def)

lemma expo_minus: "expo (- x) = expo x"
  by (simp add: expo_def)

lemma nearest64_zero [simp]: "nearest64 0 = 0"
  by (simp add: nearest64_def)

lemma nearest64_minus: "nearest64 (- x) = - nearest64 x"
  by (simp add: nearest64_def expo_minus Let_def round_even_minus)

lemma nearest64_unfold:
  "x \<noteq> 0 \<Longrightarrow> nearest64 x =
     of_int (round_even (x / 2 powi (max (expo x) (- 1022) - 52)))
       * 2 powi (max (expo x) (- 1022) - 52)"
  by (simp add: nearest64_def Let_def)

text \<open>A multiple of a power of two with a 53-bit factor is a fixed point.\<close>

lemma nearest64_exact:
  assumes m: "\<bar>m\<bar> < 2 ^ 53" and j: "- 1074 \<le> j"
  shows "nearest64 (of_int m * 2 powi j) = of_int m * 2 powi j"
proof (cases "m = 0")
  case True
  then show ?thesis by simp
next
  case False
  let ?x = "of_int m * (2::rat) powi j"
  let ?e = "max (expo ?x) (- 1022)"
  have nz: "?x \<noteq> 0" using False by simp
  have "2 powi expo ?x \<le> \<bar>?x\<bar>"
    using expo_bounds [OF nz] by simp
  also have "\<bar>?x\<bar> = of_int \<bar>m\<bar> * 2 powi j"
    by (simp add: abs_mult)
  also have "\<dots> < of_int (2 ^ 53) * 2 powi j"
  proof (rule mult_strict_right_mono)
    from m show "(of_int \<bar>m\<bar> :: rat) < of_int (2 ^ 53)"
      by (simp only: of_int_less_iff)
    show "0 < (2::rat) powi j" by (rule powi_two_pos)
  qed
  also have "\<dots> = 2 powi (53 + j)"
    by (simp add: powi2_add)
  finally have "expo ?x < 53 + j" by (rule powi2_less_cancel)
  with j have d: "0 \<le> j - (?e - 52)" by simp
  have "?x / 2 powi (?e - 52) = of_int m * 2 powi (j - (?e - 52))"
    by (simp add: powi2_diff)
  also have "\<dots> = of_int (m * 2 ^ nat (j - (?e - 52)))"
    using d by (simp add: powi2_nat)
  finally have scaled: "?x / 2 powi (?e - 52) = of_int (m * 2 ^ nat (j - (?e - 52)))" .
  have "nearest64 ?x = of_int (m * 2 ^ nat (j - (?e - 52))) * 2 powi (?e - 52)"
    unfolding nearest64_unfold [OF nz] scaled round_even_of_int ..
  also have "\<dots> = ?x / 2 powi (?e - 52) * 2 powi (?e - 52)"
    by (simp only: scaled)
  also have "\<dots> = ?x" by simp
  finally show ?thesis .
qed

lemma nearest64_of_int:
  assumes "\<bar>n\<bar> \<le> 2 ^ 53"
  shows "nearest64 (of_int n) = of_int n"
proof (cases "\<bar>n\<bar> < 2 ^ 53")
  case True
  from nearest64_exact [OF True, of 0] show ?thesis by simp
next
  case False
  with assms have "n = 2 ^ 53 \<or> n = - (2 ^ 53)" by linarith
  then have "of_int n = (of_int (n div 2) :: rat) * 2 powi 1" and "\<bar>n div 2\<bar> < 2 ^ 53"
    by auto
  with nearest64_exact [of "n div 2" 1] show ?thesis by simp
qed

lemma powi2_scale52: "2 ^ 52 * (2::rat) powi (e - 52) = 2 powi e"
  using powi2_add [of 52 "e - 52"] by simp

lemma powi2_scale53: "2 ^ 53 * (2::rat) powi (e - 52) = 2 powi (e + 1)"
  using powi2_add [of 53 "e - 52"] by (simp add: add.commute)

lemma nearest64_exact_le:
  assumes m: "\<bar>m\<bar> \<le> 2 ^ 53" and j: "- 1074 \<le> j"
  shows "nearest64 (of_int m * 2 powi j) = of_int m * 2 powi j"
proof (cases "\<bar>m\<bar> < 2 ^ 53")
  case True
  then show ?thesis using j by (rule nearest64_exact)
next
  case False
  with m have "m = 2 ^ 53 \<or> m = - (2 ^ 53)" by linarith
  then have half: "m = (m div 2) * 2" "\<bar>m div 2\<bar> < 2 ^ 53"
    by auto
  have "of_int m * (2::rat) powi j = of_int (m div 2) * (2 * 2 powi j)"
    by (subst half(1)) simp
  also have "\<dots> = of_int (m div 2) * 2 powi (j + 1)"
    by (simp add: powi2_add)
  finally have eq: "of_int m * (2::rat) powi j = of_int (m div 2) * 2 powi (j + 1)" .
  from j have "- 1074 \<le> j + 1" by simp
  from nearest64_exact [OF half(2) this] show ?thesis
    unfolding eq .
qed

lemma scaled_bound:
  assumes "x \<noteq> 0"
  shows "\<bar>x / 2 powi (max (expo x) (- 1022) - 52)\<bar> < 2 ^ 53"
proof -
  let ?e = "max (expo x) (- 1022)"
  have "\<bar>x\<bar> < 2 powi (expo x + 1)"
    using expo_bounds [OF assms] by simp
  also have "\<dots> \<le> 2 powi (?e + 1)"
    by (rule powi2_mono) simp
  also have "\<dots> = 2 ^ 53 * 2 powi (?e - 52)"
  proof -
    have "?e + 1 = 53 + (?e - 52)" by simp
    then have "(2::rat) powi (?e + 1) = 2 powi 53 * 2 powi (?e - 52)"
      by (simp only: powi2_add)
    then show ?thesis by simp
  qed
  finally have "\<bar>x\<bar> / 2 powi (?e - 52) < 2 ^ 53"
    by (simp add: pos_divide_less_eq powi_two_pos)
  then show ?thesis
    by (simp add: abs_divide abs_of_pos powi_two_pos)
qed

lemma round_even_bound:
  assumes "\<bar>t\<bar> < 2 ^ 53"
  shows "\<bar>round_even t\<bar> \<le> 2 ^ 53"
proof -
  from assms have "t \<le> of_int (2 ^ 53)" "of_int (- (2 ^ 53)) \<le> t"
    by (simp_all add: abs_less_iff)
  from round_even_mono [OF this(1)] round_even_mono [OF this(2)]
  show ?thesis
    unfolding round_even_of_int by simp
qed

lemma nearest64_form:
  "\<exists>k j. nearest64 x = of_int k * 2 powi j \<and> \<bar>k\<bar> \<le> 2 ^ 53 \<and> - 1074 \<le> j"
proof (cases "x = 0")
  case True
  then have "nearest64 x = of_int 0 * 2 powi 0 \<and> \<bar>0::int\<bar> \<le> 2 ^ 53 \<and> - 1074 \<le> (0::int)"
    by simp
  then show ?thesis by blast
next
  case False
  let ?j = "max (expo x) (- 1022) - 52"
  let ?k = "round_even (x / 2 powi ?j)"
  have "nearest64 x = of_int ?k * 2 powi ?j"
    by (rule nearest64_unfold [OF False])
  moreover have "\<bar>?k\<bar> \<le> 2 ^ 53"
    by (rule round_even_bound [OF scaled_bound [OF False]])
  moreover have "- 1074 \<le> ?j" by simp
  ultimately show ?thesis by blast
qed

lemma nearest64_idem: "nearest64 (nearest64 x) = nearest64 x"
proof -
  from nearest64_form [of x] obtain k j
    where "nearest64 x = of_int k * 2 powi j" "\<bar>k\<bar> \<le> 2 ^ 53" "- 1074 \<le> j"
    by blast
  with nearest64_exact_le [of k j] show ?thesis by simp
qed

lemma nearest64_nonneg: "0 \<le> x \<Longrightarrow> 0 \<le> nearest64 x"
proof (cases "x = 0")
  case True
  then show ?thesis by simp
next
  case False
  assume "0 \<le> x"
  then have "0 \<le> x / 2 powi (max (expo x) (- 1022) - 52)"
    by (simp add: powi_two_pos less_imp_le)
  from round_even_mono [OF this] have "0 \<le> round_even (x / 2 powi (max (expo x) (- 1022) - 52))"
    using round_even_of_int [of 0] by simp
  then show ?thesis
    unfolding nearest64_unfold [OF False] by (simp add: powi_two_pos less_imp_le)
qed

lemma nearest64_mono_pos:
  assumes x: "0 < x" and xy: "x \<le> y"
  shows "nearest64 x \<le> nearest64 y"
proof -
  let ?ex = "max (expo x) (- 1022)" and ?ey = "max (expo y) (- 1022)"
  let ?qx = "(2::rat) powi (?ex - 52)" and ?qy = "(2::rat) powi (?ey - 52)"
  from x xy have y: "0 < y" by simp
  from x y have nz: "x \<noteq> 0" "y \<noteq> 0" by simp_all
  have "2 powi expo x \<le> \<bar>x\<bar>"
    using expo_bounds [OF nz(1)] by simp
  also have "\<dots> \<le> \<bar>y\<bar>" using x xy by simp
  also have "\<dots> < 2 powi (expo y + 1)"
    using expo_bounds [OF nz(2)] by simp
  finally have "expo x < expo y + 1" by (rule powi2_less_cancel)
  then have le: "?ex \<le> ?ey" by simp
  show ?thesis
  proof (cases "?ex = ?ey")
    case True
    have "x / ?qx \<le> y / ?qx"
      using xy by (simp add: divide_right_mono powi_two_pos less_imp_le)
    from round_even_mono [OF this]
    have "(of_int (round_even (x / ?qx)) :: rat) \<le> of_int (round_even (y / ?qx))"
      by (simp only: of_int_le_iff)
    then have "of_int (round_even (x / ?qx)) * ?qx \<le> of_int (round_even (y / ?qx)) * ?qx"
      by (rule mult_right_mono) (simp add: powi_two_pos less_imp_le)
    then show ?thesis
      unfolding nearest64_unfold [OF nz(1)] nearest64_unfold [OF nz(2)] True [symmetric] .
  next
    case False
    with le have lt: "?ex < ?ey" by linarith
    then have ey: "?ey = expo y" by linarith
    have upper: "nearest64 x \<le> 2 powi (?ex + 1)"
    proof -
      have "x / ?qx < 2 ^ 53"
        by (rule le_less_trans [OF abs_ge_self scaled_bound [OF nz(1)]])
      then have "x / ?qx \<le> of_int (2 ^ 53)"
        by simp
      from round_even_mono [OF this]
      have "(of_int (round_even (x / ?qx)) :: rat) \<le> of_int (2 ^ 53)"
        unfolding round_even_of_int by (simp only: of_int_le_iff)
      then have "of_int (round_even (x / ?qx)) * ?qx \<le> of_int (2 ^ 53) * ?qx"
        by (rule mult_right_mono) (simp add: powi_two_pos less_imp_le)
      also have "of_int (2 ^ 53) * ?qx = 2 powi (?ex + 1)"
        using powi2_scale53 [of ?ex] by simp
      finally show ?thesis
        unfolding nearest64_unfold [OF nz(1)] .
    qed
    have lower: "2 powi ?ey \<le> nearest64 y"
    proof -
      have "2 powi ?ey \<le> y"
        using expo_bounds [OF nz(2)] y by (simp add: ey)
      then have "2 powi ?ey / ?qy \<le> y / ?qy"
        by (simp add: divide_right_mono powi_two_pos less_imp_le)
      moreover have "(2::rat) powi ?ey / ?qy = of_int (2 ^ 52)"
      proof -
        have "(2::rat) powi ?ey / ?qy = 2 powi (?ey - (?ey - 52))"
          by (simp only: powi2_diff)
        then show ?thesis by simp
      qed
      ultimately have "of_int (2 ^ 52) \<le> y / ?qy" by simp
      from round_even_mono [OF this]
      have "(of_int (2 ^ 52) :: rat) \<le> of_int (round_even (y / ?qy))"
        unfolding round_even_of_int by (simp only: of_int_le_iff)
      then have step: "of_int (2 ^ 52) * ?qy \<le> of_int (round_even (y / ?qy)) * ?qy"
        by (rule mult_right_mono) (simp add: powi_two_pos less_imp_le)
      have "2 powi ?ey = of_int (2 ^ 52) * ?qy"
        using powi2_scale52 [of ?ey] by simp
      also note step
      finally show ?thesis
        unfolding nearest64_unfold [OF nz(2)] .
    qed
    from lt have "?ex + 1 \<le> ?ey" by linarith
    then have "(2::rat) powi (?ex + 1) \<le> 2 powi ?ey"
      by (rule powi2_mono)
    with upper lower show ?thesis by linarith
  qed
qed

lemma nearest64_mono:
  assumes "x \<le> y"
  shows "nearest64 x \<le> nearest64 y"
proof -
  consider "0 < x" | "x \<le> 0" "0 \<le> y" | "y < 0" by linarith
  then show ?thesis
  proof cases
    case 1
    then show ?thesis using assms by (rule nearest64_mono_pos)
  next
    case 2
    from 2(1) have "0 \<le> nearest64 (- x)" by (intro nearest64_nonneg) simp
    then have "nearest64 x \<le> 0" by (simp add: nearest64_minus)
    with nearest64_nonneg [OF 2(2)] show ?thesis by linarith
  next
    case 3
    then have "0 < - y" "- y \<le> - x" using assms by simp_all
    from nearest64_mono_pos [OF this] show ?thesis
      by (simp add: nearest64_minus)
  qed
qed

lemma nearest64_error:
  assumes nz: "x \<noteq> 0" and normal: "- 1022 \<le> expo x"
  shows "\<bar>nearest64 x - x\<bar> \<le> \<bar>x\<bar> / 2 ^ 53"
proof -
  let ?q = "(2::rat) powi (expo x - 52)"
  let ?k = "round_even (x / ?q)"
  from normal have e: "max (expo x) (- 1022) = expo x" by simp
  have q: "0 < ?q" by (rule powi_two_pos)
  have "nearest64 x - x = (of_int ?k - x / ?q) * ?q"
    unfolding nearest64_unfold [OF nz] e using q by (simp add: field_simps)
  then have "\<bar>nearest64 x - x\<bar> = \<bar>of_int ?k - x / ?q\<bar> * ?q"
    using q by (simp add: abs_mult abs_of_pos)
  also have "\<dots> \<le> 1 / 2 * ?q"
    using round_even_close [of "x / ?q"] q by (intro mult_right_mono) simp_all
  also have "1 / 2 * ?q = 2 powi expo x / 2 ^ 53"
  proof -
    have "?q = 2 powi expo x / 2 powi 52" by (rule powi2_diff)
    then show ?thesis by simp
  qed
  also have "\<dots> \<le> \<bar>x\<bar> / 2 ^ 53"
    using expo_bounds [OF nz] by (intro divide_right_mono) simp_all
  finally show ?thesis .
qed

lemma expo_ge:
  assumes "2 powi e \<le> \<bar>x\<bar>"
  shows "e \<le> expo x"
proof -
  have nz: "x \<noteq> 0"
  proof
    assume "x = 0"
    with assms have "(2::rat) powi e \<le> 0" by simp
    with powi_two_pos [of e] show False by linarith
  qed
  from assms expo_bounds [OF nz] have "2 powi e < (2::rat) powi (expo x + 1)" by linarith
  from powi2_less_cancel [OF this] show ?thesis by simp
qed

text \<open>Rounding a fixed point half up gives a fixed point.\<close>

lemma nearest64_round_half_up:
  assumes "nearest64 d = d"
  shows "nearest64 (of_int \<lfloor>d + 1 / 2\<rfloor>) = of_int \<lfloor>d + 1 / 2\<rfloor>"
proof -
  from nearest64_form [of d] assms obtain k j
    where d: "d = of_int k * 2 powi j" and k: "\<bar>k\<bar> \<le> 2 ^ 53" and j: "- 1074 \<le> j"
    by auto
  show ?thesis
  proof (cases "0 \<le> j")
    case True
    then have whole: "d = of_int (k * 2 ^ nat j)"
      unfolding d by (simp add: powi2_nat)
    have "\<lfloor>d + 1 / 2\<rfloor> = k * 2 ^ nat j"
      unfolding whole by (rule floor_unique) simp_all
    then have "of_int \<lfloor>d + 1 / 2\<rfloor> = d"
      by (simp only: whole)
    with assms show ?thesis by simp
  next
    case False
    then have "(2::rat) powi j \<le> 2 powi (- 1)"
      by (intro powi2_mono) simp
    then have half: "(2::rat) powi j \<le> 1 / 2"
      by (simp add: power_int_minus_divide)
    have "\<bar>d\<bar> = of_int \<bar>k\<bar> * 2 powi j"
      unfolding d by (simp add: abs_mult abs_of_pos powi_two_pos)
    also have "\<dots> \<le> of_int (2 ^ 53) * (1 / 2)"
      using k half by (intro mult_mono) (simp_all only: of_int_le_iff, simp_all add: powi_two_pos less_imp_le)
    finally have "\<bar>d\<bar> \<le> 2 ^ 52" by simp
    then have range: "- (2 ^ 52) \<le> d" "d \<le> 2 ^ 52" by (simp_all add: abs_le_iff)
    define n where "n = \<lfloor>d + 1 / 2\<rfloor>"
    have "of_int n \<le> d + 1 / 2" "d + 1 / 2 < of_int n + 1"
      unfolding n_def by linarith+
    with range have "(of_int n :: rat) < of_int (2 ^ 52 + 1)" "(of_int (- (2 ^ 52) - 1) :: rat) < of_int n"
      by simp_all
    then have "n < 2 ^ 52 + 1" "- (2 ^ 52) - 1 < n"
      by (simp_all only: of_int_less_iff)
    then have "\<bar>n\<bar> \<le> 2 ^ 53"
      by (simp add: abs_le_iff)
    then have "nearest64 (of_int n) = of_int n"
      by (rule nearest64_of_int)
    then show ?thesis
      unfolding n_def .
  qed
qed

subsection \<open>Numbers of the format and the operations\<close>

lemma ceiling_numeral_div_rat:
  "\<lceil>(numeral a / numeral b :: rat)\<rceil> = - ((- numeral a) div numeral b)"
  by (metis ceiling_divide_eq_div of_int_numeral)

text \<open>The facts that evaluate an operation on given numbers.\<close>

lemmas number_eval = nearest64_def expo_def round_even_def compute_bitlen Let_def
  floor_numeral_div_rat ceiling_numeral_div_rat to_number_def literal_def

lemma literal_1: "literal 1 = Finite 1"
  by (simp add: number_eval)

lemma literal_100: "literal 100 = Finite 100"
  by (simp add: number_eval)

lemma nearest64_bound:
  assumes "\<bar>nearest64 x\<bar> < 2 ^ 1024"
  shows "- (2 ^ 1024) < nearest64 x \<and> nearest64 x < 2 ^ 1024"
  using assms by (simp add: abs_less_iff)

lemma to_number_binary64: "binary64 x \<Longrightarrow> to_number x = Finite x"
  by (simp add: to_number_def binary64_def Let_def abs_less_iff)

lemma to_number_Finite: "to_number x = Finite y \<Longrightarrow> binary64 y"
  by (auto simp add: to_number_def binary64_def Let_def nearest64_idem abs_less_iff
      split: if_splits)

lemma to_number_cases:
  "to_number x = Finite (nearest64 x) \<and> binary64 (nearest64 x)
   \<or> to_number x = PlusInfinity \<and> 2 ^ 1024 \<le> nearest64 x
   \<or> to_number x = MinusInfinity \<and> nearest64 x \<le> - (2 ^ 1024)"
  by (simp add: to_number_def binary64_def Let_def nearest64_idem abs_less_iff)

lemma number_mult_Finite: "number_mult a b = Finite d \<Longrightarrow> binary64 d"
  by (cases a; cases b) (auto simp add: sign_infinity_def dest: to_number_Finite split: if_splits)

text \<open>A number of the format is whole or small.\<close>

lemma binary64_whole_or_small:
  assumes "nearest64 d = d"
  shows "d = of_int \<lfloor>d\<rfloor> \<or> \<bar>d\<bar> \<le> 2 ^ 52"
proof -
  from nearest64_form [of d] assms obtain k j
    where d: "d = of_int k * 2 powi j" and k: "\<bar>k\<bar> \<le> 2 ^ 53" and j: "- 1074 \<le> j"
    by auto
  show ?thesis
  proof (cases "0 \<le> j")
    case True
    then have "d = of_int (k * 2 ^ nat j)"
      unfolding d by (simp add: powi2_nat)
    then have "d = of_int \<lfloor>d\<rfloor>"
      by (metis floor_of_int)
    then show ?thesis ..
  next
    case False
    then have "(2::rat) powi j \<le> 2 powi (- 1)"
      by (intro powi2_mono) simp
    then have half: "(2::rat) powi j \<le> 1 / 2"
      by (simp add: power_int_minus_divide)
    have "\<bar>d\<bar> = of_int \<bar>k\<bar> * 2 powi j"
      unfolding d by (simp add: abs_mult abs_of_pos powi_two_pos)
    also have "\<dots> \<le> of_int (2 ^ 53) * (1 / 2)"
      using k half
      by (intro mult_mono) (simp_all only: of_int_le_iff, simp_all add: powi_two_pos less_imp_le)
    finally have "\<bar>d\<bar> \<le> 2 ^ 52" by simp
    then show ?thesis ..
  qed
qed

lemma Math_round_binary64:
  assumes "binary64 d"
  shows "binary64 (of_int \<lfloor>d + 1 / 2\<rfloor>)"
proof -
  from assms have fixed: "nearest64 d = d" and bound: "\<bar>d\<bar> < 2 ^ 1024"
    by (simp_all add: binary64_def)
  have "\<bar>(of_int \<lfloor>d + 1 / 2\<rfloor> :: rat)\<bar> < 2 ^ 1024"
    using binary64_whole_or_small [OF fixed]
  proof
    assume "d = of_int \<lfloor>d\<rfloor>"
    then obtain m where m: "d = of_int m" ..
    have "\<lfloor>d + 1 / 2\<rfloor> = m"
      unfolding m by (rule floor_unique) simp_all
    with bound m show ?thesis by simp
  next
    assume small: "\<bar>d\<bar> \<le> 2 ^ 52"
    have "\<bar>(of_int \<lfloor>d + 1 / 2\<rfloor> :: rat)\<bar> \<le> \<bar>d\<bar> + 1"
      by (simp add: abs_le_iff) linarith
    also have "\<dots> \<le> 2 ^ 52 + 1" using small by simp
    also have "\<dots> < (2::rat) ^ 1024" by simp
    finally show ?thesis .
  qed
  with nearest64_round_half_up [OF fixed] show ?thesis
    by (simp add: binary64_def)
qed

lemma number_add_zero:
  assumes "\<And>d. a = Finite d \<Longrightarrow> binary64 d"
  shows "number_add a (Finite 0) = a"
  using assms by (cases a) (simp_all add: to_number_binary64)

subsection \<open>The rounding error\<close>

lemma round_even_scaled:
  assumes q: "0 < q"
  shows "\<bar>of_int (round_even (x / q)) * q - x\<bar> \<le> q / 2"
proof -
  have "of_int (round_even (x / q)) * q - x = (of_int (round_even (x / q)) - x / q) * q"
    using q by (simp add: field_simps)
  then have "\<bar>of_int (round_even (x / q)) * q - x\<bar> = \<bar>of_int (round_even (x / q)) - x / q\<bar> * q"
    using q by (simp add: abs_mult abs_of_pos)
  also have "\<dots> \<le> 1 / 2 * q"
    using round_even_close [of "x / q"] q by (intro mult_right_mono) simp_all
  finally show ?thesis by simp
qed

lemma nearest64_error_weak: "\<bar>nearest64 x - x\<bar> \<le> \<bar>x\<bar> / 2 ^ 53 + 1 / 2 ^ 1075"
proof (cases "x = 0")
  case True
  then show ?thesis by simp
next
  case nz: False
  show ?thesis
  proof (cases "- 1022 \<le> expo x")
    case True
    have "(0::rat) \<le> 1 / 2 ^ 1075" by simp
    with nearest64_error [OF nz True] show ?thesis by linarith
  next
    case False
    then have e: "max (expo x) (- 1022) - 52 = - 1074" by simp
    have "\<bar>nearest64 x - x\<bar> \<le> 2 powi (- 1074) / 2"
      unfolding nearest64_unfold [OF nz] e by (rule round_even_scaled) (rule powi_two_pos)
    also have "(2::rat) powi (- 1074) / 2 = 1 / 2 ^ 1075"
      by (simp add: power_int_minus_divide)
    finally have "\<bar>nearest64 x - x\<bar> \<le> 1 / 2 ^ 1075" .
    moreover have "0 \<le> \<bar>x\<bar> / 2 ^ 53" by simp
    ultimately show ?thesis by linarith
  qed
qed

lemma to_number_small:
  assumes "\<bar>x\<bar> \<le> 2 ^ 1023"
  shows "to_number x = Finite (nearest64 x)"
proof -
  have p: "nearest64 (2 ^ 1023) = 2 ^ 1023"
    using nearest64_exact [of 1 1023] by simp
  from assms have "x \<le> 2 ^ 1023" "- (2 ^ 1023) \<le> x"
    by (simp_all add: abs_le_iff)
  then have "nearest64 x \<le> nearest64 (2 ^ 1023)" "nearest64 (- (2 ^ 1023)) \<le> nearest64 x"
    by (simp_all only: nearest64_mono)
  then have "nearest64 x \<le> 2 ^ 1023" "- (2 ^ 1023) \<le> nearest64 x"
    by (simp_all only: p nearest64_minus)
  then show ?thesis
    by (simp add: to_number_def Let_def)
qed

lemma round_stable:
  assumes "\<bar>y - of_int k / 5\<bar> < 1 / (10 :: rat)"
  shows "\<lfloor>y + 1 / 2\<rfloor> = (2 * k + 5) div 10"
proof -
  define n where "n = (2 * k + 5) div 10"
  define r where "r = (2 * k + 5) mod 10"
  have split: "2 * k + 5 = 10 * n + r"
    unfolding n_def r_def by simp
  have range: "1 \<le> r" "r \<le> 9"
    unfolding r_def by presburger+
  from split have "(of_int (2 * k + 5) :: rat) = of_int (10 * n + r)"
    by (simp only:)
  then have exact: "(of_int k :: rat) / 5 + 1 / 2 = of_int n + of_int r / 10"
    by (simp add: field_simps)
  from range have "(of_int 1 :: rat) \<le> of_int r" "(of_int r :: rat) \<le> of_int 9"
    by (simp_all only: of_int_le_iff)
  then have r: "(1::rat) / 10 \<le> of_int r / 10" "(of_int r :: rat) / 10 \<le> 9 / 10"
    by simp_all
  from assms have "y + 1 / 2 < of_int k / 5 + 1 / 2 + 1 / 10"
    "of_int k / 5 + 1 / 2 - 1 / 10 < y + 1 / 2"
    by linarith+
  with r have "of_int n \<le> y + 1 / 2" "y + 1 / 2 < of_int n + 1"
    unfolding exact by linarith+
  then show ?thesis
    unfolding n_def [symmetric] by (rule floor_unique)
qed

lemma literals:
  "literal 3 = Finite 3"
  "literal 10 = Finite 10"
  "literal 12 = Finite 12"
  "literal (12 / 10) = Finite (5404319552844595 / 4503599627370496)"
  "literal (15 / 10) = Finite (3 / 2)"
  "literal (4 / 10) = Finite (3602879701896397 / 9007199254740992)"
  "literal (6 / 10) = Finite (5404319552844595 / 9007199254740992)"
  "literal (8 / 10) = Finite (3602879701896397 / 4503599627370496)"
  by (simp_all add: number_eval)

section \<open>Pricing\<close>

lemma transform_price_with_vat:
  "price_with_vat (transformApiDataToSkip r) =
     Math_round
       (number_mult (Finite (price_before_vat r))
          (number_add (Finite 1) (number_divide (Finite (vat r)) (Finite 100))))"
  by (simp add: transformApiDataToSkip_def Let_def literal_1 literal_100)

lemma transform_final_price:
  "final_price (transformApiDataToSkip r) =
     (if truthy (transport_cost r)
      then number_add (price_with_vat (transformApiDataToSkip r)) (Finite (the (transport_cost r)))
      else price_with_vat (transformApiDataToSkip r))"
  by (simp add: transformApiDataToSkip_def Let_def)

lemma price_with_vat_Finite:
  assumes "price_with_vat (transformApiDataToSkip r) = Finite n"
  shows "binary64 n"
proof -
  let ?product = "number_mult (Finite (price_before_vat r))
     (number_add (Finite 1) (number_divide (Finite (vat r)) (Finite 100)))"
  from assms have round: "Math_round ?product = Finite n"
    by (simp only: transform_price_with_vat)
  then obtain d where d: "?product = Finite d" and n: "n = of_int \<lfloor>d + 1 / 2\<rfloor>"
    by (cases ?product) simp_all
  from number_mult_Finite [OF d] have "binary64 d" .
  then show ?thesis
    unfolding n by (rule Math_round_binary64)
qed

lemma final_price_present:
  assumes "transport_cost r = Some c"
  shows "final_price (transformApiDataToSkip r)
    = number_add (price_with_vat (transformApiDataToSkip r)) (Finite c)"
proof (cases "c = 0")
  case True
  have "number_add (price_with_vat (transformApiDataToSkip r)) (Finite 0)
      = price_with_vat (transformApiDataToSkip r)"
    by (rule number_add_zero) (rule price_with_vat_Finite)
  with assms True show ?thesis
    by (simp add: transform_final_price truthy_def)
next
  case False
  with assms show ?thesis
    by (simp add: transform_final_price truthy_def)
qed

lemma vat_rate_Finite:
  assumes "\<bar>v\<bar> < 2 ^ 1024"
  shows "number_add (Finite 1) (number_divide (Finite v) (Finite 100))
    = Finite (nearest64 (1 + nearest64 (v / 100)))"
proof -
  from assms have "- (2 ^ 1018 * 100) \<le> v" "v \<le> 2 ^ 1018 * 100"
    by (simp_all add: abs_less_iff)
  then have "- (2 ^ 1018) \<le> v / 100" "v / 100 \<le> 2 ^ 1018"
    by simp_all
  then have "nearest64 (- (2 ^ 1018)) \<le> nearest64 (v / 100)"
    "nearest64 (v / 100) \<le> nearest64 (2 ^ 1018)"
    by (simp_all only: nearest64_mono)
  moreover have p: "nearest64 (2 ^ 1018) = 2 ^ 1018"
    using nearest64_exact [of 1 1018] by simp
  moreover have "nearest64 (- (2 ^ 1018)) = - (2 ^ 1018)"
    using p by (simp only: nearest64_minus)
  ultimately have a: "- (2 ^ 1018) \<le> nearest64 (v / 100)" "nearest64 (v / 100) \<le> 2 ^ 1018"
    by simp_all
  then have quotient: "number_divide (Finite v) (Finite 100) = Finite (nearest64 (v / 100))"
    by (simp add: to_number_def Let_def)
  from a have "- (2 ^ 1019) \<le> 1 + nearest64 (v / 100)" "1 + nearest64 (v / 100) \<le> 2 ^ 1019"
    by simp_all
  then have "nearest64 (- (2 ^ 1019)) \<le> nearest64 (1 + nearest64 (v / 100))"
    "nearest64 (1 + nearest64 (v / 100)) \<le> nearest64 (2 ^ 1019)"
    by (simp_all only: nearest64_mono)
  moreover have q: "nearest64 (2 ^ 1019) = 2 ^ 1019"
    using nearest64_exact [of 1 1019] by simp
  moreover have "nearest64 (- (2 ^ 1019)) = - (2 ^ 1019)"
    using q by (simp only: nearest64_minus)
  ultimately have "- (2 ^ 1019) \<le> nearest64 (1 + nearest64 (v / 100))"
    "nearest64 (1 + nearest64 (v / 100)) \<le> 2 ^ 1019"
    by simp_all
  then show ?thesis
    unfolding quotient by (simp add: to_number_def Let_def)
qed

text \<open>
  Claim C1, as stated, fails. It says that the price with tax is
  \<open>price_before_vat * (1 + vat / 100)\<close> rounded half up. For the price 50 and the tax
  rate 15 that value is 57.5, and half up it rounds to 58. The source computes the
  quotient, the sum and the product in floating-point arithmetic: the product is the
  number next below 57.5, and the price with tax is 57.
\<close>

theorem price_with_tax_counterexample:
  "price_before_vat ((rawApiData ! 0)\<lparr> price_before_vat := 50, vat := 15 \<rparr>)
      * (1 + vat ((rawApiData ! 0)\<lparr> price_before_vat := 50, vat := 15 \<rparr>) / 100) = 115 / 2
   \<and> documented_price_with_tax ((rawApiData ! 0)\<lparr> price_before_vat := 50, vat := 15 \<rparr>) = 58
   \<and> price_with_vat
        (transformApiDataToSkip ((rawApiData ! 0)\<lparr> price_before_vat := 50, vat := 15 \<rparr>))
      = Finite 57"
  by (simp add: transform_price_with_vat documented_price_with_tax_def number_eval)

text \<open>
  Claim C1, amended. For every raw record, the price with tax is the floating-point
  value of \<open>price_before_vat * (1 + vat / 100)\<close>, rounded half up: the quotient
  \<open>vat / 100\<close>, the sum with 1 and the product are each rounded to the nearest number
  of the format, and when the product is finite the price with tax is the whole number
  within a half of it, the upper half excluded. The final price is the
  floating-point sum of the price with tax and the transport cost when the cost is not
  null, and the price with tax otherwise; the cost is added after the rounding and is
  not rounded. A record with price 278, tax rate 20 and no transport cost gets 334 and
  334; a record with price 992, tax rate 20 and transport cost 248 gets 1190 and 1438.
\<close>

theorem transform_pricing:
  "price_with_vat (transformApiDataToSkip r)
     = Math_round
         (number_mult (Finite (price_before_vat r))
            (number_add (Finite 1) (number_divide (Finite (vat r)) (Finite 100))))
   \<and> (\<bar>vat r\<bar> < 2 ^ 1024 \<longrightarrow>
         price_with_vat (transformApiDataToSkip r)
           = Math_round
               (to_number (price_before_vat r * nearest64 (1 + nearest64 (vat r / 100)))))
   \<and> (\<forall>d. number_mult (Finite (price_before_vat r))
              (number_add (Finite 1) (number_divide (Finite (vat r)) (Finite 100))) = Finite d \<longrightarrow>
         price_with_vat (transformApiDataToSkip r) = Finite (of_int \<lfloor>d + 1 / 2\<rfloor>)
       \<and> of_int \<lfloor>d + 1 / 2\<rfloor> - 1 / 2 \<le> d \<and> d < of_int \<lfloor>d + 1 / 2\<rfloor> + 1 / 2)
   \<and> (\<forall>c. transport_cost r = Some c \<longrightarrow>
         final_price (transformApiDataToSkip r)
           = number_add (price_with_vat (transformApiDataToSkip r)) (Finite c))
   \<and> (transport_cost r = None \<longrightarrow>
         final_price (transformApiDataToSkip r) = price_with_vat (transformApiDataToSkip r))
   \<and> (price_before_vat r = 278 \<and> vat r = 20 \<and> transport_cost r = None \<longrightarrow>
         price_with_vat (transformApiDataToSkip r) = Finite 334
       \<and> final_price (transformApiDataToSkip r) = Finite 334)
   \<and> (price_before_vat r = 992 \<and> vat r = 20 \<and> transport_cost r = Some 248 \<longrightarrow>
         price_with_vat (transformApiDataToSkip r) = Finite 1190
       \<and> final_price (transformApiDataToSkip r) = Finite 1438)"
proof -
  let ?product = "number_mult (Finite (price_before_vat r))
    (number_add (Finite 1) (number_divide (Finite (vat r)) (Finite 100)))"
  let ?pw = "price_with_vat (transformApiDataToSkip r)"
  let ?fp = "final_price (transformApiDataToSkip r)"
  have pw: "?pw = Math_round ?product"
    by (rule transform_price_with_vat)
  have explicit: "?pw
      = Math_round (to_number (price_before_vat r * nearest64 (1 + nearest64 (vat r / 100))))"
    if "\<bar>vat r\<bar> < 2 ^ 1024"
    unfolding pw vat_rate_Finite [OF that] by simp
  have half_up: "?pw = Finite (of_int \<lfloor>d + 1 / 2\<rfloor>)
      \<and> of_int \<lfloor>d + 1 / 2\<rfloor> - 1 / 2 \<le> d \<and> d < of_int \<lfloor>d + 1 / 2\<rfloor> + 1 / 2"
    if "?product = Finite d" for d
  proof -
    have "?pw = Finite (of_int \<lfloor>d + 1 / 2\<rfloor>)"
      unfolding pw that by simp
    moreover have "of_int \<lfloor>d + 1 / 2\<rfloor> - 1 / 2 \<le> d" by linarith
    moreover have "d < of_int \<lfloor>d + 1 / 2\<rfloor> + 1 / 2" by linarith
    ultimately show ?thesis by simp
  qed
  have present: "?fp = number_add ?pw (Finite c)" if "transport_cost r = Some c" for c
    using that by (rule final_price_present)
  have absent: "?fp = ?pw" if "transport_cost r = None"
    using that by (simp add: transform_final_price truthy_def)
  have small: "?pw = Finite 334 \<and> ?fp = Finite 334"
    if "price_before_vat r = 278 \<and> vat r = 20 \<and> transport_cost r = None"
    using that
    by (simp add: transform_final_price transform_price_with_vat truthy_def number_eval)
  have large: "?pw = Finite 1190 \<and> ?fp = Finite 1438"
    if "price_before_vat r = 992 \<and> vat r = 20 \<and> transport_cost r = Some 248"
    using that
    by (simp add: transform_final_price transform_price_with_vat truthy_def number_eval)
  from pw explicit half_up present absent small large show ?thesis
    by blast
qed

theorem transform_pricing_witness:
  "transport_cost (rawApiData ! 0) = None
   \<and> price_before_vat (rawApiData ! 0) = 278 \<and> vat (rawApiData ! 0) = 20
   \<and> final_price (transformApiDataToSkip (rawApiData ! 0)) = Finite 334
   \<and> transport_cost (rawApiData ! 7) = Some 248
   \<and> price_before_vat (rawApiData ! 7) = 992 \<and> vat (rawApiData ! 7) = 20
   \<and> \<bar>vat (rawApiData ! 7)\<bar> < 2 ^ 1024
   \<and> number_mult (Finite (price_before_vat (rawApiData ! 7)))
        (number_add (Finite 1) (number_divide (Finite (vat (rawApiData ! 7))) (Finite 100)))
      = Finite (5235434566818201 / 4398046511104)
   \<and> price_with_vat (transformApiDataToSkip (rawApiData ! 7))
      = Math_round (to_number (992 * nearest64 (1 + nearest64 (20 / 100))))
   \<and> price_with_vat (transformApiDataToSkip (rawApiData ! 7)) = Finite 1190
   \<and> final_price (transformApiDataToSkip (rawApiData ! 7))
      = number_add (Finite 1190) (Finite 248)
   \<and> final_price (transformApiDataToSkip (rawApiData ! 7)) = Finite 1438"
proof -
  let ?a = "rawApiData ! 0" and ?b = "rawApiData ! 7"
  have first: "transport_cost ?a = None \<and> price_before_vat ?a = 278 \<and> vat ?a = 20"
    by (simp add: rawApiData_def)
  have eighth: "transport_cost ?b = Some 248 \<and> price_before_vat ?b = 992 \<and> vat ?b = 20"
    by (simp add: rawApiData_def)
  have rate: "\<bar>vat ?b\<bar> < 2 ^ 1024"
    by (simp add: rawApiData_def)
  have product: "number_mult (Finite (price_before_vat ?b))
        (number_add (Finite 1) (number_divide (Finite (vat ?b)) (Finite 100)))
      = Finite (5235434566818201 / 4398046511104)"
    by (simp add: rawApiData_def number_eval)
  from transform_pricing [of ?a] first
  have final_a: "final_price (transformApiDataToSkip ?a) = Finite 334"
    by blast
  from transform_pricing [of ?b] rate
  have "price_with_vat (transformApiDataToSkip ?b)
      = Math_round (to_number (price_before_vat ?b * nearest64 (1 + nearest64 (vat ?b / 100))))"
    by blast
  with eighth have explicit: "price_with_vat (transformApiDataToSkip ?b)
      = Math_round (to_number (992 * nearest64 (1 + nearest64 (20 / 100))))"
    by (simp only:)
  from transform_pricing [of ?b] eighth
  have prices: "price_with_vat (transformApiDataToSkip ?b) = Finite 1190"
    "final_price (transformApiDataToSkip ?b) = Finite 1438"
    by blast+
  from transform_pricing [of ?b] eighth
  have "final_price (transformApiDataToSkip ?b)
      = number_add (price_with_vat (transformApiDataToSkip ?b)) (Finite 248)"
    by blast
  then have sum: "final_price (transformApiDataToSkip ?b)
      = number_add (Finite 1190) (Finite 248)"
    by (simp only: prices(1))
  from first final_a eighth rate product explicit prices sum show ?thesis
    by (intro conjI) (simp_all only:)
qed

section \<open>Price invariants\<close>

lemma to_number_nonneg:
  assumes "0 \<le> x"
  shows "(\<exists>y. to_number x = Finite y \<and> y = nearest64 x \<and> binary64 y \<and> 0 \<le> y)
    \<or> to_number x = PlusInfinity"
proof -
  from assms have "0 \<le> nearest64 x" by (rule nearest64_nonneg)
  with to_number_cases [of x] show ?thesis by auto
qed

lemma price_with_vat_nonneg:
  assumes p: "0 \<le> price_before_vat r" and v: "0 \<le> vat r" and fin: "vat r < 2 ^ 1024"
  shows "(\<exists>n. price_with_vat (transformApiDataToSkip r) = Finite (of_int n) \<and> 0 \<le> n
           \<and> binary64 (of_int n))
    \<or> price_with_vat (transformApiDataToSkip r) = PlusInfinity"
proof -
  let ?b = "nearest64 (1 + nearest64 (vat r / 100))"
  from v fin have "\<bar>vat r\<bar> < 2 ^ 1024" by simp
  then have rate: "number_add (Finite 1) (number_divide (Finite (vat r)) (Finite 100)) = Finite ?b"
    by (rule vat_rate_Finite)
  from v have "0 \<le> nearest64 (vat r / 100)"
    by (intro nearest64_nonneg) simp
  then have "0 \<le> ?b"
    by (intro nearest64_nonneg) simp
  with p have "0 \<le> price_before_vat r * ?b" by simp
  from to_number_nonneg [OF this] show ?thesis
  proof
    assume "\<exists>y. to_number (price_before_vat r * ?b) = Finite y
      \<and> y = nearest64 (price_before_vat r * ?b) \<and> binary64 y \<and> 0 \<le> y"
    then obtain y where y: "to_number (price_before_vat r * ?b) = Finite y"
      and fixed: "binary64 y" and pos: "0 \<le> y"
      by blast
    have "price_with_vat (transformApiDataToSkip r) = Finite (of_int \<lfloor>y + 1 / 2\<rfloor>)"
      unfolding transform_price_with_vat rate by (simp add: y)
    moreover have "0 \<le> \<lfloor>y + 1 / 2\<rfloor>"
      using pos by simp
    moreover have "binary64 (of_int \<lfloor>y + 1 / 2\<rfloor>)"
      using fixed by (rule Math_round_binary64)
    ultimately show ?thesis by blast
  next
    assume "to_number (price_before_vat r * ?b) = PlusInfinity"
    then have "price_with_vat (transformApiDataToSkip r) = PlusInfinity"
      unfolding transform_price_with_vat rate by simp
    then show ?thesis ..
  qed
qed

lemma number_add_nonneg:
  assumes n: "binary64 n" and c: "0 \<le> c"
  shows "number_le (Finite n) (number_add (Finite n) (Finite c))"
proof -
  from n have fixed: "nearest64 n = n" and bound: "\<bar>n\<bar> < 2 ^ 1024"
    by (simp_all add: binary64_def)
  from c have "n \<le> n + c" by simp
  then have "nearest64 n \<le> nearest64 (n + c)" by (rule nearest64_mono)
  then have le: "n \<le> nearest64 (n + c)" by (simp only: fixed)
  from bound have "- (2 ^ 1024) < n" by (simp add: abs_less_iff)
  with le have "\<not> nearest64 (n + c) \<le> - (2 ^ 1024)" by simp
  with le show ?thesis
    by (simp add: to_number_def Let_def)
qed

lemma number_add_greater:
  assumes n: "0 \<le> n" "n < 2 ^ 53" and c: "1 \<le> c"
  shows "number_less (Finite (of_int n)) (number_add (Finite (of_int n)) (Finite c))"
proof -
  from n have "\<bar>n + 1\<bar> \<le> 2 ^ 53" by simp
  then have next_fixed: "nearest64 (of_int (n + 1)) = of_int (n + 1)"
    by (rule nearest64_of_int)
  from c have "of_int (n + 1) \<le> of_int n + c" by simp
  then have "nearest64 (of_int (n + 1)) \<le> nearest64 (of_int n + c)"
    by (rule nearest64_mono)
  then have "of_int (n + 1) \<le> nearest64 (of_int n + c)"
    by (simp only: next_fixed)
  then have less: "of_int n < nearest64 (of_int n + c)" by simp
  from n(1) have "(0::rat) \<le> of_int n" by simp
  with less have "\<not> nearest64 (of_int n + c) \<le> - (2 ^ 1024)" by simp
  with less show ?thesis
    by (simp add: to_number_def Let_def)
qed

text \<open>
  A positive transport cost below half the distance between the price with tax and
  the next number is rounded away by the addition: with the cost \<open>1 / 2 ^ 44\<close> the
  final price of the 20 yard skip is its price with tax.
\<close>

lemma final_price_absorbs_small_cost:
  "price_with_vat (transformApiDataToSkip ((rawApiData ! 7)\<lparr> transport_cost := Some (1 / 2 ^ 44) \<rparr>))
     = Finite 1190
   \<and> final_price (transformApiDataToSkip ((rawApiData ! 7)\<lparr> transport_cost := Some (1 / 2 ^ 44) \<rparr>))
     = Finite 1190"
  by (simp add: rawApiData_def transform_price_with_vat transform_final_price truthy_def
      number_eval)

text \<open>
  Claim C2, as stated, fails. It says that the final price equals the price with tax
  if and only if the transport cost is absent. The record of the 20 yard skip with
  its transport cost set to zero meets the assumptions of the claim (price, tax rate
  and cost are not negative), its transport cost is present, and its final price
  equals its price with tax.
\<close>

theorem final_price_eq_counterexample:
  "0 \<le> price_before_vat ((rawApiData ! 7)\<lparr> transport_cost := Some 0 \<rparr>)
   \<and> 0 \<le> vat ((rawApiData ! 7)\<lparr> transport_cost := Some 0 \<rparr>)
   \<and> transport_cost ((rawApiData ! 7)\<lparr> transport_cost := Some 0 \<rparr>) = Some 0
   \<and> \<not> (final_price (transformApiDataToSkip ((rawApiData ! 7)\<lparr> transport_cost := Some 0 \<rparr>))
          = price_with_vat (transformApiDataToSkip ((rawApiData ! 7)\<lparr> transport_cost := Some 0 \<rparr>))
        \<longleftrightarrow> transport_cost ((rawApiData ! 7)\<lparr> transport_cost := Some 0 \<rparr>) = None)"
  by (simp add: rawApiData_def transform_final_price truthy_def)

text \<open>
  Claim C2, amended. For every raw record whose price and tax rate are not negative,
  whose tax rate is finite (below \<open>2 ^ 1024\<close>) and whose transport cost, when present,
  is not negative, the decorated entry has \<open>final_price \<ge> price_with_vat \<ge> 0\<close>. The
  two prices are equal when the transport cost is absent or zero, and the final price
  is greater when the cost is at least 1 and the price with tax is below \<open>2 ^ 53\<close>.
  Between the two, the floating-point sum decides: a small positive cost can be
  rounded away.
\<close>

theorem final_price_bounds:
  assumes "0 \<le> price_before_vat r" and "0 \<le> vat r" and "vat r < 2 ^ 1024"
    and "\<forall>c. transport_cost r = Some c \<longrightarrow> 0 \<le> c"
  shows "number_le (Finite 0) (price_with_vat (transformApiDataToSkip r))
       \<and> number_le (price_with_vat (transformApiDataToSkip r))
           (final_price (transformApiDataToSkip r))
       \<and> (transport_cost r = None \<or> transport_cost r = Some 0 \<longrightarrow>
            final_price (transformApiDataToSkip r) = price_with_vat (transformApiDataToSkip r))
       \<and> (\<forall>c. transport_cost r = Some c \<and> 1 \<le> c
              \<and> number_less (price_with_vat (transformApiDataToSkip r)) (Finite (2 ^ 53)) \<longrightarrow>
            number_less (price_with_vat (transformApiDataToSkip r))
              (final_price (transformApiDataToSkip r)))"
proof -
  let ?pw = "price_with_vat (transformApiDataToSkip r)"
  let ?fp = "final_price (transformApiDataToSkip r)"
  have equal: "?fp = ?pw" if "transport_cost r = None \<or> transport_cost r = Some 0"
    using that by (auto simp add: transform_final_price truthy_def)
  from price_with_vat_nonneg [OF assms(1,2,3)] show ?thesis
  proof
    assume "\<exists>n. ?pw = Finite (of_int n) \<and> 0 \<le> n \<and> binary64 (of_int n)"
    then obtain n where pw: "?pw = Finite (of_int n)" and n: "0 \<le> n"
      and fixed: "binary64 (of_int n :: rat)"
      by blast
    have nonneg: "number_le (Finite 0) ?pw"
      using n by (simp add: pw)
    have le: "number_le ?pw ?fp"
    proof (cases "transport_cost r")
      case None
      with equal have "?fp = ?pw" by simp
      then show ?thesis by (simp add: pw)
    next
      case (Some c)
      with assms(4) have "0 \<le> c" by simp
      from number_add_nonneg [OF fixed this] show ?thesis
        by (simp only: final_price_present [OF Some] pw)
    qed
    have greater: "number_less ?pw ?fp"
      if "transport_cost r = Some c \<and> 1 \<le> c \<and> number_less ?pw (Finite (2 ^ 53))" for c
    proof -
      from that have c: "transport_cost r = Some c" "1 \<le> c" by simp_all
      from that have "(of_int n :: rat) < of_int (2 ^ 53)" by (simp add: pw)
      then have "n < 2 ^ 53" by (simp only: of_int_less_iff)
      from number_add_greater [OF n this c(2)] show ?thesis
        by (simp only: final_price_present [OF c(1)] pw)
    qed
    from nonneg le equal greater show ?thesis by blast
  next
    assume pw: "?pw = PlusInfinity"
    have "?fp = PlusInfinity"
      by (cases "transport_cost r") (simp_all add: transform_final_price pw)
    with pw equal show ?thesis by simp
  qed
qed

theorem final_price_bounds_witness:
  "0 \<le> price_before_vat (rawApiData ! 7) \<and> 0 \<le> vat (rawApiData ! 7)
   \<and> vat (rawApiData ! 7) < 2 ^ 1024
   \<and> transport_cost (rawApiData ! 7) = Some 248
   \<and> price_with_vat (transformApiDataToSkip (rawApiData ! 7)) = Finite 1190
   \<and> number_le (Finite 0) (price_with_vat (transformApiDataToSkip (rawApiData ! 7)))
   \<and> number_le (price_with_vat (transformApiDataToSkip (rawApiData ! 7)))
       (final_price (transformApiDataToSkip (rawApiData ! 7)))
   \<and> number_less (price_with_vat (transformApiDataToSkip (rawApiData ! 7)))
       (final_price (transformApiDataToSkip (rawApiData ! 7)))"
proof -
  let ?r = "rawApiData ! 7"
  have p: "0 \<le> price_before_vat ?r" by (simp add: rawApiData_def)
  have v: "0 \<le> vat ?r" by (simp add: rawApiData_def)
  have f: "vat ?r < 2 ^ 1024" by (simp add: rawApiData_def)
  have t: "transport_cost ?r = Some 248" by (simp add: rawApiData_def)
  have c: "\<forall>c. transport_cost ?r = Some c \<longrightarrow> 0 \<le> c" by (simp add: t)
  have pw: "price_with_vat (transformApiDataToSkip ?r) = Finite 1190"
    by (simp add: rawApiData_def transform_price_with_vat number_eval)
  then have small: "number_less (price_with_vat (transformApiDataToSkip ?r)) (Finite (2 ^ 53))"
    by simp
  have one: "(1::rat) \<le> 248" by simp
  from final_price_bounds [OF p v f c] t one small
  have "number_le (Finite 0) (price_with_vat (transformApiDataToSkip ?r))"
    "number_le (price_with_vat (transformApiDataToSkip ?r)) (final_price (transformApiDataToSkip ?r))"
    "number_less (price_with_vat (transformApiDataToSkip ?r)) (final_price (transformApiDataToSkip ?r))"
    by blast+
  with p v f t pw show ?thesis
    by (intro conjI)
qed

section \<open>The catalog\<close>

lemma filter_size_transform:
  "filter (\<lambda>s. P (size_skip s)) (map transformApiDataToSkip rs)
     = map transformApiDataToSkip (filter (\<lambda>r. P (size_skip r)) rs)"
  by (induction rs) (simp_all add: transform_api_fields)

text \<open>
  Claim C3. For every sequence of raw records, the catalog holds no entry with the
  \<open>forbidden\<close> flag set; its entries are exactly the decorations of the records that
  are not forbidden; it is sorted ascending by size; entries of equal size keep the
  order they had in the input; and each entry is at most as large as its successor.
\<close>

theorem skipData_of_filtered_sorted:
  "(\<forall>s \<in> set (skipData_of raw). \<not> forbidden s)
   \<and> mset (skipData_of raw)
       = mset (map transformApiDataToSkip (filter (\<lambda>r. \<not> forbidden r) raw))
   \<and> sorted (map size_skip (skipData_of raw))
   \<and> (\<forall>k. filter (\<lambda>s. size_skip s = k) (skipData_of raw)
          = map transformApiDataToSkip
              (filter (\<lambda>r. size_skip r = k) (filter (\<lambda>r. \<not> forbidden r) raw)))
   \<and> (\<forall>i. Suc i < length (skipData_of raw) \<longrightarrow>
          size_skip (skipData_of raw ! i) \<le> size_skip (skipData_of raw ! Suc i))"
proof -
  let ?kept = "filter (\<lambda>r. \<not> forbidden r) raw"
  have no_forbidden: "\<forall>s \<in> set (skipData_of raw). \<not> forbidden s"
    by (auto simp: skipData_of_def transform_api_fields)
  have same_entries: "mset (skipData_of raw) = mset (map transformApiDataToSkip ?kept)"
    by (simp add: skipData_of_def)
  have ascending: "sorted (map size_skip (skipData_of raw))"
    by (simp add: skipData_of_def)
  have stable: "filter (\<lambda>s. size_skip s = k) (skipData_of raw)
          = map transformApiDataToSkip (filter (\<lambda>r. size_skip r = k) ?kept)" for k
    unfolding skipData_of_def sort_key_stable
    by (rule filter_size_transform)
  have adjacent: "size_skip (skipData_of raw ! i) \<le> size_skip (skipData_of raw ! Suc i)"
    if "Suc i < length (skipData_of raw)" for i
  proof -
    from that have "map size_skip (skipData_of raw) ! i \<le> map size_skip (skipData_of raw) ! Suc i"
      using ascending by (intro sorted_nth_mono) simp_all
    with that show ?thesis by simp
  qed
  from no_forbidden same_entries ascending stable adjacent show ?thesis
    by blast
qed

theorem skipData_of_filtered_sorted_witness:
  "Suc 0 < length (skipData_of [rawApiData ! 8, (rawApiData ! 0)\<lparr> forbidden := True \<rparr>, rawApiData ! 1])
   \<and> map id_skip (skipData_of [rawApiData ! 8, (rawApiData ! 0)\<lparr> forbidden := True \<rparr>, rawApiData ! 1])
        = [17934, 15125]
   \<and> size_skip (skipData_of [rawApiData ! 8, (rawApiData ! 0)\<lparr> forbidden := True \<rparr>, rawApiData ! 1] ! 0)
        \<le> size_skip (skipData_of [rawApiData ! 8, (rawApiData ! 0)\<lparr> forbidden := True \<rparr>, rawApiData ! 1] ! Suc 0)"
proof -
  have len: "Suc 0 < length (skipData_of [rawApiData ! 8, (rawApiData ! 0)\<lparr> forbidden := True \<rparr>, rawApiData ! 1])"
    by (simp add: skipData_of_def rawApiData_def)
  have ids: "map id_skip (skipData_of [rawApiData ! 8, (rawApiData ! 0)\<lparr> forbidden := True \<rparr>, rawApiData ! 1])
        = [17934, 15125]"
    by (simp add: skipData_of_def rawApiData_def transform_api_fields)
  from len ids
    skipData_of_filtered_sorted
      [of "[rawApiData ! 8, (rawApiData ! 0)\<lparr> forbidden := True \<rparr>, rawApiData ! 1]"]
  show ?thesis by blast
qed

text \<open>The catalog of the fixture: the fixture is already in order of size.\<close>

lemma skipData_unfold: "skipData = map transformApiDataToSkip rawApiData"
proof -
  have "filter (\<lambda>skip. \<not> forbidden skip) rawApiData = rawApiData"
    by (simp add: rawApiData_def)
  moreover have "sorted (map size_skip (map transformApiDataToSkip rawApiData))"
    by (simp add: rawApiData_def transform_api_fields)
  ultimately show ?thesis
    by (simp add: skipData_def skipData_of_def sort_key_id_if_sorted)
qed

lemma skipData_sizes: "map size_skip skipData = [4, 6, 8, 10, 12, 14, 16, 20, 40]"
  by (simp add: skipData_unfold rawApiData_def transform_api_fields)

lemma defaultConfig_popularity: "DisplayProps.popularity (defaultConfig sz) = 1 / 10"
  by (simp add: defaultConfig_def)

lemma sizeConfig_popularity:
  "map_of sizeConfig sz = Some config \<Longrightarrow>
     DisplayProps.popularity config \<in> {15 / 100, 35 / 100, 25 / 100, 2 / 10}"
  by (auto simp: sizeConfig_def split: if_splits)

lemma getDisplayProperties_popularity_pos:
  "0 < DisplayProps.popularity (getDisplayProperties r)"
proof (cases "map_of sizeConfig (size_skip r)")
  case None
  then show ?thesis
    by (simp add: getDisplayProperties_def defaultConfig_popularity)
next
  case (Some config)
  from sizeConfig_popularity [OF this] Some show ?thesis
    by (auto simp: getDisplayProperties_def)
qed

lemma skipData_of_popularity_pos: "\<forall>s \<in> set (skipData_of raw). 0 < popularity s"
  by (auto simp: skipData_of_def transform_popularity getDisplayProperties_popularity_pos)

lemma skipData_popularities:
  "map popularity skipData =
     [15 / 100, 35 / 100, 25 / 100, 2 / 10, 15 / 100, 1 / 10, 1 / 10, 1 / 10, 1 / 10]"
  by (simp add: skipData_unfold rawApiData_def transform_popularity getDisplayProperties_def
      sizeConfig_def defaultConfig_popularity)

section \<open>The most popular entry\<close>

text \<open>
  The loop of \<open>getMostPopularSkipIndex\<close>: the score it ends with bounds every score
  it has seen, and either no entry beat the score it started with, or the index it
  ends with is the first position that holds the final score.
\<close>

lemma forEach_upper:
  "mostPopular_forEach xs i (m, h) = (m', h') \<Longrightarrow>
     h \<le> h' \<and> (\<forall>x \<in> set xs. popularity x \<le> h')"
proof (induction xs arbitrary: i m h)
  case Nil
  then show ?case by simp
next
  case (Cons x xs)
  show ?case
  proof (cases "popularity x > h")
    case True
    with Cons.prems have "mostPopular_forEach xs (i + 1) (i, popularity x) = (m', h')"
      by simp
    from Cons.IH [OF this] True show ?thesis by auto
  next
    case False
    with Cons.prems have "mostPopular_forEach xs (i + 1) (m, h) = (m', h')"
      by simp
    from Cons.IH [OF this] False show ?thesis by auto
  qed
qed

lemma forEach_first:
  "mostPopular_forEach xs i (m, h) = (m', h') \<Longrightarrow>
     (m' = m \<and> h' = h) \<or>
     (i \<le> m' \<and> m' < i + int (length xs) \<and> popularity (xs ! nat (m' - i)) = h' \<and> h < h'
      \<and> (\<forall>j < nat (m' - i). popularity (xs ! j) < h'))"
proof (induction xs arbitrary: i m h)
  case Nil
  then show ?case by simp
next
  case (Cons x xs)
  show ?case
  proof (cases "popularity x > h")
    case True
    with Cons.prems have run: "mostPopular_forEach xs (i + 1) (i, popularity x) = (m', h')"
      by simp
    from Cons.IH [OF run] show ?thesis
    proof
      assume "m' = i \<and> h' = popularity x"
      with True show ?thesis by simp
    next
      assume later: "i + 1 \<le> m' \<and> m' < i + 1 + int (length xs)
        \<and> popularity (xs ! nat (m' - (i + 1))) = h' \<and> popularity x < h'
        \<and> (\<forall>j < nat (m' - (i + 1)). popularity (xs ! j) < h')"
      then have pos: "nat (m' - i) = Suc (nat (m' - (i + 1)))" by linarith
      have "\<forall>j < nat (m' - i). popularity ((x # xs) ! j) < h'"
        unfolding pos using later by (auto simp: less_Suc_eq_0_disj)
      with later True pos show ?thesis by auto
    qed
  next
    case False
    with Cons.prems have run: "mostPopular_forEach xs (i + 1) (m, h) = (m', h')"
      by simp
    from Cons.IH [OF run] show ?thesis
    proof
      assume "m' = m \<and> h' = h"
      then show ?thesis by simp
    next
      assume later: "i + 1 \<le> m' \<and> m' < i + 1 + int (length xs)
        \<and> popularity (xs ! nat (m' - (i + 1))) = h' \<and> h < h'
        \<and> (\<forall>j < nat (m' - (i + 1)). popularity (xs ! j) < h')"
      then have pos: "nat (m' - i) = Suc (nat (m' - (i + 1)))" by linarith
      have "\<forall>j < nat (m' - i). popularity ((x # xs) ! j) < h'"
        unfolding pos using later False by (auto simp: less_Suc_eq_0_disj)
      with later pos show ?thesis by auto
    qed
  qed
qed

lemma skipData_most_popular: "getMostPopularSkipIndex skipData = 1"
proof -
  from skipData_popularities obtain a b c d e f g h i
    where cat: "skipData = [a, b, c, d, e, f, g, h, i]"
    and pops: "popularity a = 15 / 100" "popularity b = 35 / 100" "popularity c = 25 / 100"
      "popularity d = 2 / 10" "popularity e = 15 / 100" "popularity f = 1 / 10"
      "popularity g = 1 / 10" "popularity h = 1 / 10" "popularity i = 1 / 10"
    by (auto simp: map_eq_Cons_conv)
  show ?thesis
    unfolding cat by (simp add: getMostPopularSkipIndex_def pops)
qed

text \<open>
  Claim C4. A popularity score lies in \<open>[0, 1]\<close>, and every catalog the pipeline
  builds has scores above zero. For every non-empty catalog with no negative score,
  \<open>getMostPopularSkipIndex\<close> returns a position of the catalog that holds the highest
  score, and every earlier position holds a strictly lower score: it is the first
  occurrence of the maximum, and a later entry with an equal score does not replace
  it. On the scores \<open>[0.15, 0.35, 0.25]\<close> the result is 1, and on a catalog of one
  entry it is 0.
\<close>

theorem getMostPopularSkipIndex_first_max:
  "(catalog \<noteq> [] \<and> (\<forall>s \<in> set catalog. 0 \<le> popularity s) \<longrightarrow>
      0 \<le> getMostPopularSkipIndex catalog
    \<and> getMostPopularSkipIndex catalog < int (length catalog)
    \<and> (\<forall>s \<in> set catalog.
          popularity s \<le> popularity (catalog ! nat (getMostPopularSkipIndex catalog)))
    \<and> (\<forall>j < nat (getMostPopularSkipIndex catalog).
          popularity (catalog ! j) < popularity (catalog ! nat (getMostPopularSkipIndex catalog))))
   \<and> (\<forall>s \<in> set (skipData_of raw). 0 \<le> popularity s)
   \<and> (map popularity catalog = [15 / 100, 35 / 100, 25 / 100] \<longrightarrow>
        getMostPopularSkipIndex catalog = 1)
   \<and> (length catalog = 1 \<longrightarrow> getMostPopularSkipIndex catalog = 0)"
proof -
  obtain m' h' where run: "mostPopular_forEach catalog 0 (0, 0) = (m', h')"
    by (cases "mostPopular_forEach catalog 0 (0, 0)")
  then have res: "getMostPopularSkipIndex catalog = m'"
    by (simp add: getMostPopularSkipIndex_def)
  have general: "0 \<le> m' \<and> m' < int (length catalog)
    \<and> (\<forall>s \<in> set catalog. popularity s \<le> popularity (catalog ! nat m'))
    \<and> (\<forall>j < nat m'. popularity (catalog ! j) < popularity (catalog ! nat m'))"
    if nonempty: "catalog \<noteq> []" and nonneg: "\<forall>s \<in> set catalog. 0 \<le> popularity s"
  proof -
    from forEach_upper [OF run] have upper: "\<forall>x \<in> set catalog. popularity x \<le> h'"
      by simp
    from forEach_first [OF run] show ?thesis
    proof
      assume unchanged: "m' = 0 \<and> h' = 0"
      with upper nonneg have "\<forall>x \<in> set catalog. popularity x = 0"
        by (meson order.antisym)
      with unchanged nonempty show ?thesis by simp
    next
      assume "0 \<le> m' \<and> m' < 0 + int (length catalog)
        \<and> popularity (catalog ! nat (m' - 0)) = h' \<and> 0 < h'
        \<and> (\<forall>j < nat (m' - 0). popularity (catalog ! j) < h')"
      with upper show ?thesis by simp
    qed
  qed
  have built: "\<forall>s \<in> set (skipData_of raw). 0 \<le> popularity s"
    using skipData_of_popularity_pos [of raw] by (simp add: less_imp_le)
  have three: "getMostPopularSkipIndex catalog = 1"
    if "map popularity catalog = [15 / 100, 35 / 100, 25 / 100]"
  proof -
    from that obtain a b c where "catalog = [a, b, c]"
      and "popularity a = 15 / 100" and "popularity b = 35 / 100" and "popularity c = 25 / 100"
      by (auto simp: map_eq_Cons_conv)
    then show ?thesis
      by (simp add: getMostPopularSkipIndex_def)
  qed
  have single: "getMostPopularSkipIndex catalog = 0" if "length catalog = 1"
  proof -
    from that obtain a where "catalog = [a]"
      by (cases catalog) simp_all
    then show ?thesis
      by (simp add: getMostPopularSkipIndex_def)
  qed
  from general built three single show ?thesis
    unfolding res by blast
qed

theorem getMostPopularSkipIndex_first_max_witness:
  "skipData \<noteq> [] \<and> getMostPopularSkipIndex skipData = 1
   \<and> popularity (skipData ! 0) < popularity (skipData ! 1)
   \<and> popularity (skipData ! 2) \<le> popularity (skipData ! 1)"
proof -
  have nonempty: "skipData \<noteq> []"
    using skipData_sizes by auto
  have nonneg: "\<forall>s \<in> set skipData. 0 \<le> popularity s"
    using skipData_of_popularity_pos [of rawApiData] by (simp add: skipData_def less_imp_le)
  have "length (map size_skip skipData) = 9"
    unfolding skipData_sizes by simp
  then have member: "skipData ! 2 \<in> set skipData"
    by (intro nth_mem) simp
  from getMostPopularSkipIndex_first_max [of skipData rawApiData] nonempty nonneg
    skipData_most_popular member
  show ?thesis by auto
qed

section \<open>Looking an entry up by size\<close>

lemma findIndex_from_none:
  "\<forall>x \<in> set xs. \<not> P x \<Longrightarrow> findIndex_from P xs i = - 1"
  by (induction xs arbitrary: i) simp_all

lemma findIndex_from_first:
  "\<exists>x \<in> set xs. P x \<Longrightarrow>
     i \<le> findIndex_from P xs i \<and> findIndex_from P xs i < i + int (length xs)
     \<and> P (xs ! nat (findIndex_from P xs i - i))
     \<and> (\<forall>j < nat (findIndex_from P xs i - i). \<not> P (xs ! j))"
proof (induction xs arbitrary: i)
  case Nil
  then show ?case by simp
next
  case (Cons x xs)
  show ?case
  proof (cases "P x")
    case True
    then show ?thesis by simp
  next
    case False
    with Cons.prems have "\<exists>x \<in> set xs. P x" by simp
    from Cons.IH [OF this, of "i + 1"]
    have later: "i + 1 \<le> findIndex_from P xs (i + 1)
      \<and> findIndex_from P xs (i + 1) < i + 1 + int (length xs)
      \<and> P (xs ! nat (findIndex_from P xs (i + 1) - (i + 1)))
      \<and> (\<forall>j < nat (findIndex_from P xs (i + 1) - (i + 1)). \<not> P (xs ! j))" .
    then have pos: "nat (findIndex_from P xs (i + 1) - i)
        = Suc (nat (findIndex_from P xs (i + 1) - (i + 1)))"
      by linarith
    have "\<forall>j < nat (findIndex_from P xs (i + 1) - i). \<not> P ((x # xs) ! j)"
      unfolding pos using later False by (auto simp: less_Suc_eq_0_disj)
    with later False pos show ?thesis by auto
  qed
qed

text \<open>
  Claim C5. For every catalog and size, when some entry has that size,
  \<open>getSkipIndexBySize\<close> returns the position of the first such entry; when none has,
  it returns the result of \<open>getMostPopularSkipIndex\<close> on the same catalog, and the
  caller gets no sign that the size was not found. On the catalog of the fixture,
  size 6 gives position 1, which holds the entry of size 6, and size 999 gives the
  most popular position.
\<close>

theorem getSkipIndexBySize_first_or_popular:
  "((\<exists>s \<in> set catalog. size_skip s = sz) \<longrightarrow>
      0 \<le> getSkipIndexBySize catalog sz
    \<and> getSkipIndexBySize catalog sz < int (length catalog)
    \<and> size_skip (catalog ! nat (getSkipIndexBySize catalog sz)) = sz
    \<and> (\<forall>j < nat (getSkipIndexBySize catalog sz). size_skip (catalog ! j) \<noteq> sz))
   \<and> ((\<forall>s \<in> set catalog. size_skip s \<noteq> sz) \<longrightarrow>
        getSkipIndexBySize catalog sz = getMostPopularSkipIndex catalog)
   \<and> getSkipIndexBySize skipData 6 = 1
   \<and> size_skip (skipData ! 1) = 6
   \<and> getSkipIndexBySize skipData 999 = getMostPopularSkipIndex skipData"
proof -
  let ?P = "\<lambda>skip. size_skip skip = sz"
  have found: "0 \<le> getSkipIndexBySize catalog sz
    \<and> getSkipIndexBySize catalog sz < int (length catalog)
    \<and> size_skip (catalog ! nat (getSkipIndexBySize catalog sz)) = sz
    \<and> (\<forall>j < nat (getSkipIndexBySize catalog sz). size_skip (catalog ! j) \<noteq> sz)"
    if "\<exists>s \<in> set catalog. size_skip s = sz"
  proof -
    from findIndex_from_first [of catalog ?P 0, OF that]
    have first: "0 \<le> findIndex ?P catalog \<and> findIndex ?P catalog < int (length catalog)
      \<and> size_skip (catalog ! nat (findIndex ?P catalog)) = sz
      \<and> (\<forall>j < nat (findIndex ?P catalog). size_skip (catalog ! j) \<noteq> sz)"
      by (simp add: findIndex_def)
    then have "getSkipIndexBySize catalog sz = findIndex ?P catalog"
      by (simp add: getSkipIndexBySize_def Let_def)
    with first show ?thesis by simp
  qed
  have missing: "getSkipIndexBySize catalog sz = getMostPopularSkipIndex catalog"
    if "\<forall>s \<in> set catalog. size_skip s \<noteq> sz"
    using findIndex_from_none [of catalog ?P 0] that
    by (simp add: getSkipIndexBySize_def findIndex_def)
  from skipData_sizes obtain a b c d e f g h i where cat: "skipData = [a, b, c, d, e, f, g, h, i]"
    and sizes: "size_skip a = 4" "size_skip b = 6" "size_skip c = 8" "size_skip d = 10"
      "size_skip e = 12" "size_skip f = 14" "size_skip g = 16" "size_skip h = 20"
      "size_skip i = 40"
    by (auto simp: map_eq_Cons_conv)
  have six: "getSkipIndexBySize skipData 6 = 1"
    unfolding cat using sizes by (simp add: getSkipIndexBySize_def findIndex_def)
  have at_one: "size_skip (skipData ! 1) = 6"
    unfolding cat using sizes by simp
  have unknown: "getSkipIndexBySize skipData 999 = getMostPopularSkipIndex skipData"
    unfolding cat using sizes by (simp add: getSkipIndexBySize_def findIndex_def)
  from found missing six at_one unknown show ?thesis
    by blast
qed

theorem getSkipIndexBySize_first_or_popular_witness:
  "getSkipIndexBySize skipData 20 = 7
   \<and> size_skip (skipData ! 7) = 20
   \<and> getSkipIndexBySize skipData 5 = 1"
proof -
  from skipData_sizes obtain a b c d e f g h i where cat: "skipData = [a, b, c, d, e, f, g, h, i]"
    and sizes: "size_skip a = 4" "size_skip b = 6" "size_skip c = 8" "size_skip d = 10"
      "size_skip e = 12" "size_skip f = 14" "size_skip g = 16" "size_skip h = 20"
      "size_skip i = 40"
    by (auto simp: map_eq_Cons_conv)
  have present: "\<exists>s \<in> set skipData. size_skip s = 20"
    unfolding cat using sizes by simp
  have absent: "\<forall>s \<in> set skipData. size_skip s \<noteq> 5"
    unfolding cat using sizes by simp
  have twenty: "getSkipIndexBySize skipData 20 = 7"
    unfolding cat using sizes by (simp add: getSkipIndexBySize_def findIndex_def)
  from getSkipIndexBySize_first_or_popular [of skipData 20]
    getSkipIndexBySize_first_or_popular [of skipData 5]
    present absent twenty skipData_most_popular
  show ?thesis by simp
qed



section \<open>The wizard\<close>

lemma length_steps: "int (length steps) = 6"
  by (simp add: steps_def)

lemma call_in_range:
  "1 \<le> currentStep s \<and> currentStep s \<le> 6 \<Longrightarrow>
     1 \<le> currentStep (call h s) \<and> currentStep (call h s) \<le> 6"
  by (cases h) (simp_all add: handleNext_def handlePrevious_def length_steps)

lemma run_in_range:
  "1 \<le> currentStep s \<and> currentStep s \<le> 6 \<Longrightarrow>
     1 \<le> currentStep (run hs s) \<and> currentStep (run hs s) \<le> 6"
  unfolding run_def
proof (induction hs arbitrary: s)
  case Nil
  then show ?case by simp
next
  case (Cons h hs)
  from call_in_range [OF Cons.prems] have "1 \<le> currentStep (call h s) \<and> currentStep (call h s) \<le> 6" .
  from Cons.IH [OF this] show ?case by simp
qed

lemma call_keeps_gate: "canGoNext (call h s) = canGoNext s"
  by (cases h) (simp_all add: handleNext_def handlePrevious_def)

lemma Navigation_keeps_gate: "canGoNext (Navigation c s) = canGoNext s"
  by (cases c) (simp_all add: handleNext_def handlePrevious_def)

lemma run_keeps_gate: "canGoNext (run hs s) = canGoNext s"
  unfolding run_def by (induction hs arbitrary: s) (simp_all add: call_keeps_gate)

lemma clicks_keeps_gate: "canGoNext (clicks cs s) = canGoNext s"
  unfolding clicks_def by (induction cs arbitrary: s) (simp_all add: Navigation_keeps_gate)

text \<open>
  Claim C6. The wizard has six steps and starts at step 1. \<open>handleNext\<close> on step 6
  and \<open>handlePrevious\<close> on step 1 leave the state as it is; from step 3,
  \<open>handleNext\<close> leads to step 4 and \<open>handlePrevious\<close> after it restores the state.
  After any sequence of calls of the two handlers from the initial state the current
  step lies in \<open>[1, totalSteps]\<close>. Both handlers are total functions of the state:
  the source has no failing branch in them, so the model has no error value.
\<close>

theorem wizard_step_bounds:
  "currentStep initial_state = 1 \<and> int (length steps) = 6
   \<and> (currentStep s = 6 \<longrightarrow> handleNext s = s)
   \<and> (currentStep s = 1 \<longrightarrow> handlePrevious s = s)
   \<and> (currentStep s = 3 \<longrightarrow> currentStep (handleNext s) = 4
        \<and> handlePrevious (handleNext s) = s)
   \<and> 1 \<le> currentStep (run hs initial_state)
   \<and> currentStep (run hs initial_state) \<le> int (length steps)"
proof -
  have start: "currentStep initial_state = 1"
    by (simp add: initial_state_def)
  have last: "handleNext s = s" if "currentStep s = 6"
    using that by (simp add: handleNext_def length_steps)
  have first: "handlePrevious s = s" if "currentStep s = 1"
    using that by (simp add: handlePrevious_def)
  have there_and_back: "currentStep (handleNext s) = 4 \<and> handlePrevious (handleNext s) = s"
    if "currentStep s = 3"
    using that by (simp add: handleNext_def handlePrevious_def length_steps)
  have "1 \<le> currentStep (run hs initial_state) \<and> currentStep (run hs initial_state) \<le> 6"
    by (rule run_in_range) (simp add: start)
  with start last first there_and_back show ?thesis
    by (simp add: length_steps)
qed

theorem wizard_step_bounds_witness:
  "currentStep \<lparr> currentStep = 6, canGoNext = True \<rparr> = 6
   \<and> handleNext \<lparr> currentStep = 6, canGoNext = True \<rparr> = \<lparr> currentStep = 6, canGoNext = True \<rparr>
   \<and> handlePrevious \<lparr> currentStep = 1, canGoNext = True \<rparr> = \<lparr> currentStep = 1, canGoNext = True \<rparr>
   \<and> handlePrevious (handleNext \<lparr> currentStep = 3, canGoNext = True \<rparr>)
        = \<lparr> currentStep = 3, canGoNext = True \<rparr>
   \<and> currentStep (run [HandlePrevious, HandleNext, HandleNext] initial_state) \<le> 6"
  using wizard_step_bounds [of "\<lparr> currentStep = 6, canGoNext = True \<rparr>" "[]"]
    wizard_step_bounds [of "\<lparr> currentStep = 1, canGoNext = True \<rparr>" "[]"]
    wizard_step_bounds [of "\<lparr> currentStep = 3, canGoNext = True \<rparr>"
      "[HandlePrevious, HandleNext, HandleNext]"]
  by simp

text \<open>
  Claim C10. \<open>canGoNext\<close> is true initially, neither handler and no click changes
  it, and so it is true in every state reached by handler calls or by clicks. In every
  such state below step 6 a click on Next moves to the following step: the gate
  never blocks the forward transition.
\<close>

theorem gate_always_open:
  "canGoNext initial_state
   \<and> canGoNext (call h s) = canGoNext s
   \<and> canGoNext (Navigation c s) = canGoNext s
   \<and> canGoNext (run hs initial_state)
   \<and> canGoNext (clicks cs initial_state)
   \<and> (currentStep (clicks cs initial_state) < 6 \<longrightarrow>
        currentStep (Navigation ClickNext (clicks cs initial_state))
          = currentStep (clicks cs initial_state) + 1)
   \<and> (currentStep (run hs initial_state) < 6 \<longrightarrow>
        currentStep (Navigation ClickNext (run hs initial_state))
          = currentStep (run hs initial_state) + 1)"
proof -
  have start: "canGoNext initial_state"
    by (simp add: initial_state_def)
  have by_handlers: "canGoNext (run hs initial_state)"
    by (simp add: run_keeps_gate start)
  have by_clicks: "canGoNext (clicks cs initial_state)"
    by (simp add: clicks_keeps_gate start)
  have forward: "currentStep (Navigation ClickNext t) = currentStep t + 1"
    if "canGoNext t" and "currentStep t < 6" for t
    using that by (simp add: handleNext_def length_steps)
  from start by_handlers by_clicks forward [OF by_clicks] forward [OF by_handlers]
  show ?thesis
    by (simp add: call_keeps_gate Navigation_keeps_gate)
qed

theorem gate_always_open_witness:
  "currentStep (clicks [ClickNext, ClickNext] initial_state) = 3
   \<and> currentStep (Navigation ClickNext (clicks [ClickNext, ClickNext] initial_state)) = 4
   \<and> currentStep (Navigation ClickNext (run [HandleNext] initial_state)) = 3"
proof -
  have two: "currentStep (clicks [ClickNext, ClickNext] initial_state) = 3"
    by (simp add: clicks_def initial_state_def handleNext_def length_steps)
  have one: "currentStep (run [HandleNext] initial_state) = 2"
    by (simp add: run_def initial_state_def handleNext_def length_steps)
  from gate_always_open [of _ _ _ "[HandleNext]" "[ClickNext, ClickNext]"] two one
  show ?thesis by simp
qed

section \<open>Reordering the skip tabs\<close>

lemma splice1_in_range:
  "0 \<le> idx \<Longrightarrow> idx < int (length xs) \<Longrightarrow>
     splice1 idx xs = ([xs ! nat idx], take (nat idx) xs @ drop (Suc (nat idx)) xs)"
proof -
  assume lo: "0 \<le> idx" and hi: "idx < int (length xs)"
  then have less: "nat idx < length xs" by linarith
  have start: "(if idx < 0 then max (int (length xs) + idx) 0 else min idx (int (length xs))) = idx"
    using lo hi by simp
  have count: "min 1 (int (length xs) - idx) = 1"
    using hi by simp
  have removed: "take (nat 1) (drop (nat idx) xs) = [xs ! nat idx]"
    using less by (simp add: take_Suc_conv_app_nth [of 0] hd_drop_conv_nth take_Suc)
  have rest: "nat (idx + 1) = Suc (nat idx)"
    using lo by linarith
  show ?thesis
    unfolding splice1_def Let_def start count removed rest by simp
qed

text \<open>
  Claim C7. For every list \<open>propTabs\<close> and every position \<open>idx\<close> within it,
  \<open>moveSelectedTabToTop\<close> sets the tab order to \<open>propTabs\<close> with the element at
  \<open>idx\<close> moved to the front, and makes that element the active tab. The new order is
  computed from \<open>propTabs\<close> and not from the order before the call, so selecting one
  tab and then another gives the same state as selecting the second tab alone, from
  any state and in particular from the initial one.
\<close>

theorem moveSelectedTabToTop_from_canonical:
  "(0 \<le> idx \<and> idx < int (length propTabs) \<longrightarrow>
      tabs (moveSelectedTabToTop propTabs idx s)
        = map Some (propTabs ! nat idx # take (nat idx) propTabs @ drop (Suc (nat idx)) propTabs)
    \<and> active (moveSelectedTabToTop propTabs idx s) = Some (propTabs ! nat idx))
   \<and> moveSelectedTabToTop propTabs a (moveSelectedTabToTop propTabs b s)
       = moveSelectedTabToTop propTabs a s
   \<and> moveSelectedTabToTop propTabs a (moveSelectedTabToTop propTabs b (Tabs_initial propTabs))
       = moveSelectedTabToTop propTabs a (Tabs_initial propTabs)"
proof -
  have in_range: "tabs (moveSelectedTabToTop propTabs idx s)
        = map Some (propTabs ! nat idx # take (nat idx) propTabs @ drop (Suc (nat idx)) propTabs)
    \<and> active (moveSelectedTabToTop propTabs idx s) = Some (propTabs ! nat idx)"
    if "0 \<le> idx \<and> idx < int (length propTabs)"
  proof -
    from that have less: "nat idx < length propTabs" by linarith
    from that have "splice1 idx (map Some propTabs)
      = ([map Some propTabs ! nat idx],
         take (nat idx) (map Some propTabs) @ drop (Suc (nat idx)) (map Some propTabs))"
      by (intro splice1_in_range) simp_all
    with less show ?thesis
      by (simp add: moveSelectedTabToTop_def at_index_def take_map drop_map)
  qed
  have from_canonical: "moveSelectedTabToTop propTabs a (moveSelectedTabToTop propTabs b t)
       = moveSelectedTabToTop propTabs a t" for t
    by (simp add: moveSelectedTabToTop_def Let_def split: prod.splits)
  from in_range from_canonical show ?thesis
    by blast
qed

theorem moveSelectedTabToTop_from_canonical_witness:
  "map (map_option value)
     (tabs (moveSelectedTabToTop
        [\<lparr> title = ''Compact'', value = ''17933'' \<rparr>, \<lparr> title = ''Standard'', value = ''17934'' \<rparr>,
         \<lparr> title = ''Large'', value = ''17935'' \<rparr>] 2
        (Tabs_initial [\<lparr> title = ''Compact'', value = ''17933'' \<rparr>,
           \<lparr> title = ''Standard'', value = ''17934'' \<rparr>, \<lparr> title = ''Large'', value = ''17935'' \<rparr>])))
     = [Some ''17935'', Some ''17933'', Some ''17934'']
   \<and> active (moveSelectedTabToTop
        [\<lparr> title = ''Compact'', value = ''17933'' \<rparr>, \<lparr> title = ''Standard'', value = ''17934'' \<rparr>,
         \<lparr> title = ''Large'', value = ''17935'' \<rparr>] 2
        (Tabs_initial [\<lparr> title = ''Compact'', value = ''17933'' \<rparr>,
           \<lparr> title = ''Standard'', value = ''17934'' \<rparr>, \<lparr> title = ''Large'', value = ''17935'' \<rparr>]))
     = Some \<lparr> title = ''Large'', value = ''17935'' \<rparr>"
  using moveSelectedTabToTop_from_canonical
    [of 2 "[\<lparr> title = ''Compact'', value = ''17933'' \<rparr>, \<lparr> title = ''Standard'', value = ''17934'' \<rparr>,
         \<lparr> title = ''Large'', value = ''17935'' \<rparr>]"
      "Tabs_initial [\<lparr> title = ''Compact'', value = ''17933'' \<rparr>,
           \<lparr> title = ''Standard'', value = ''17934'' \<rparr>, \<lparr> title = ''Large'', value = ''17935'' \<rparr>]"]
  by simp

section \<open>Restrictions\<close>

text \<open>
  Claim C8, as stated, fails. It says that the transport message is appended when a
  transport cost is present. The record of the 20 yard skip with its transport cost
  set to zero has a transport cost that is not null, and its restriction list has no
  transport message: the source tests the cost for truthiness, and zero is falsy.
\<close>

theorem restrictions_counterexample:
  "transport_cost ((rawApiData ! 7)\<lparr> transport_cost := Some 0 \<rparr>) \<noteq> None
   \<and> restrictions (transformApiDataToSkip ((rawApiData ! 7)\<lparr> transport_cost := Some 0 \<rparr>))
       = [''Road permit required'']
   \<and> documented_restrictions ((rawApiData ! 7)\<lparr> transport_cost := Some 0 \<rparr>)
       = [''Road permit required'', ''Additional transport costs apply'']
   \<and> restrictions (transformApiDataToSkip ((rawApiData ! 7)\<lparr> transport_cost := Some 0 \<rparr>))
       \<noteq> documented_restrictions ((rawApiData ! 7)\<lparr> transport_cost := Some 0 \<rparr>)"
  by (simp add: rawApiData_def transform_restrictions truthy_def
      documented_restrictions_def)

text \<open>
  Claim C8, amended. For every raw record the restriction list is built from three
  conditions in fixed order: the road-permit message when road placement is not
  allowed, then the heavy-waste message when heavy waste is not allowed, then the
  transport message when the transport cost is present and not zero. Two records
  that agree on these three fields get the same list, and the list is the documented
  one for every record whose transport cost is not zero.
\<close>

theorem restrictions_three_conditions:
  "restrictions (transformApiDataToSkip r) =
      (if \<not> allowed_on_road r then [''Road permit required''] else []) @
      (if \<not> allows_heavy_waste r then [''Heavy waste restrictions apply''] else []) @
      (if transport_cost r \<noteq> None \<and> transport_cost r \<noteq> Some 0
       then [''Additional transport costs apply''] else [])
   \<and> (\<forall>r'. allowed_on_road r' = allowed_on_road r
           \<and> allows_heavy_waste r' = allows_heavy_waste r
           \<and> transport_cost r' = transport_cost r
         \<longrightarrow> restrictions (transformApiDataToSkip r') = restrictions (transformApiDataToSkip r))
   \<and> (transport_cost r \<noteq> Some 0 \<longrightarrow>
         restrictions (transformApiDataToSkip r) = documented_restrictions r)"
  by (cases "transport_cost r")
     (simp_all add: transform_restrictions truthy_def documented_restrictions_def)

theorem restrictions_three_conditions_witness:
  "transport_cost (rawApiData ! 8) \<noteq> Some 0
   \<and> restrictions (transformApiDataToSkip (rawApiData ! 8)) =
      [''Road permit required'', ''Heavy waste restrictions apply'',
       ''Additional transport costs apply'']
   \<and> restrictions (transformApiDataToSkip ((rawApiData ! 8)\<lparr> id_skip := 1 \<rparr>))
      = restrictions (transformApiDataToSkip (rawApiData ! 8))"
proof -
  have same: "allowed_on_road ((rawApiData ! 8)\<lparr> id_skip := 1 \<rparr>) = allowed_on_road (rawApiData ! 8)
     \<and> allows_heavy_waste ((rawApiData ! 8)\<lparr> id_skip := 1 \<rparr>) = allows_heavy_waste (rawApiData ! 8)
     \<and> transport_cost ((rawApiData ! 8)\<lparr> id_skip := 1 \<rparr>) = transport_cost (rawApiData ! 8)"
    by simp
  have vals: "\<not> allowed_on_road (rawApiData ! 8) \<and> \<not> allows_heavy_waste (rawApiData ! 8)
     \<and> transport_cost (rawApiData ! 8) = Some 248"
    by (simp add: rawApiData_def)
  from restrictions_three_conditions [of "rawApiData ! 8"] same vals show ?thesis
    by (simp add: documented_restrictions_def)
qed

section \<open>Default metadata for a size outside the table\<close>

lemma transform_display_fields:
  "icon (transformApiDataToSkip r) = DisplayProps.icon (getDisplayProperties r)"
  "gradient (transformApiDataToSkip r) = DisplayProps.gradient (getDisplayProperties r)"
  "description (transformApiDataToSkip r) = DisplayProps.description (getDisplayProperties r)"
  "capacity (transformApiDataToSkip r) = DisplayProps.capacity (getDisplayProperties r)"
  "dimensions (transformApiDataToSkip r) = DisplayProps.dimensions (getDisplayProperties r)"
  "weight (transformApiDataToSkip r) = DisplayProps.weight (getDisplayProperties r)"
  "bestFor (transformApiDataToSkip r) = DisplayProps.bestFor (getDisplayProperties r)"
  "useCases (transformApiDataToSkip r) = DisplayProps.useCases (getDisplayProperties r)"
  by (simp_all add: transformApiDataToSkip_def Let_def)

lemma sizeConfig_miss:
  "sz \<notin> {4, 6, 8, 10, 12} \<Longrightarrow> map_of sizeConfig sz = None"
  by (simp add: sizeConfig_def)

lemma sizeConfig_hit:
  "sz \<in> {4, 6, 8, 10, 12} \<Longrightarrow> map_of sizeConfig sz \<noteq> None"
  by (auto simp: sizeConfig_def)

lemma getDisplayProperties_default:
  "size_skip r \<notin> {4, 6, 8, 10, 12} \<Longrightarrow> getDisplayProperties r = defaultConfig (size_skip r)"
  by (simp add: getDisplayProperties_def sizeConfig_miss)

text \<open>
  The products of a size of magnitude up to \<open>10 ^ 14\<close> with the literals: those with
  10, 12 and 1.5 are exact, and those with 1.2, 0.4, 0.6 and 0.8 are within a twentieth
  of the exact product, which is a whole number of fifths.
\<close>

lemma size_bound_rat:
  assumes "\<bar>sz\<bar> \<le> 10 ^ 14"
  shows "\<bar>of_int sz :: rat\<bar> \<le> 10 ^ 14"
proof -
  from assms have "(of_int \<bar>sz\<bar> :: rat) \<le> of_int (10 ^ 14)"
    by (simp only: of_int_le_iff)
  then show ?thesis by simp
qed

lemma size_product:
  assumes sz: "\<bar>sz\<bar> \<le> 10 ^ 14"
    and lit: "\<bar>lit - of_int a / 5\<bar> \<le> 1 / 2 ^ 52" and bound: "\<bar>lit\<bar> \<le> 2"
  shows "number_mult (Finite (of_int sz)) (Finite lit) = Finite (nearest64 (of_int sz * lit))
    \<and> \<bar>nearest64 (of_int sz * lit) - of_int (a * sz) / 5\<bar> \<le> 1 / 20"
proof -
  let ?s = "of_int sz :: rat"
  let ?x = "?s * lit"
  have s: "\<bar>?s\<bar> \<le> 10 ^ 14"
    using sz by (rule size_bound_rat)
  have "\<bar>?x\<bar> = \<bar>?s\<bar> * \<bar>lit\<bar>" by (rule abs_mult)
  also have "\<dots> \<le> 10 ^ 14 * 2"
    using s bound by (intro mult_mono) simp_all
  finally have x: "\<bar>?x\<bar> \<le> 10 ^ 14 * 2" .
  have "(10 ^ 14 * 2 :: rat) \<le> 2 ^ 1023" by simp
  with x have "\<bar>?x\<bar> \<le> 2 ^ 1023" by (rule order_trans)
  then have finite: "number_mult (Finite ?s) (Finite lit) = Finite (nearest64 ?x)"
    by (simp only: number_mult.simps to_number_small)
  have "\<bar>nearest64 ?x - ?x\<bar> \<le> \<bar>?x\<bar> / 2 ^ 53 + 1 / 2 ^ 1075"
    by (rule nearest64_error_weak)
  also have "\<dots> \<le> (10 ^ 14 * 2) / 2 ^ 53 + 1 / 2 ^ 1075"
    using x by (simp add: divide_right_mono)
  finally have e1: "\<bar>nearest64 ?x - ?x\<bar> \<le> (10 ^ 14 * 2) / 2 ^ 53 + 1 / 2 ^ 1075" .
  have "?x - of_int (a * sz) / 5 = ?s * (lit - of_int a / 5)"
    by (simp add: field_simps)
  then have "\<bar>?x - of_int (a * sz) / 5\<bar> = \<bar>?s\<bar> * \<bar>lit - of_int a / 5\<bar>"
    by (simp only: abs_mult)
  also have "\<dots> \<le> 10 ^ 14 * (1 / 2 ^ 52)"
    using s lit by (intro mult_mono) simp_all
  finally have e2: "\<bar>?x - of_int (a * sz) / 5\<bar> \<le> 10 ^ 14 * (1 / 2 ^ 52)" .
  have "\<bar>nearest64 ?x - of_int (a * sz) / 5\<bar>
      \<le> \<bar>nearest64 ?x - ?x\<bar> + \<bar>?x - of_int (a * sz) / 5\<bar>"
    by linarith
  also have "\<dots> \<le> ((10 ^ 14 * 2) / 2 ^ 53 + 1 / 2 ^ 1075) + 10 ^ 14 * (1 / 2 ^ 52)"
    using e1 e2 by (rule add_mono)
  also have "\<dots> \<le> 1 / 20" by simp
  finally have "\<bar>nearest64 ?x - of_int (a * sz) / 5\<bar> \<le> 1 / 20" .
  with finite show ?thesis ..
qed

lemma Math_round_size_fifths:
  assumes sz: "\<bar>sz\<bar> \<le> 10 ^ 14"
    and lit: "\<bar>lit - of_int a / 5\<bar> \<le> 1 / 2 ^ 52" and bound: "\<bar>lit\<bar> \<le> 2"
  shows "Math_round (number_mult (Finite (of_int sz)) (Finite lit))
    = Finite (of_int ((2 * (a * sz) + 5) div 10))"
proof -
  from size_product [OF assms]
  have finite: "number_mult (Finite (of_int sz)) (Finite lit)
      = Finite (nearest64 (of_int sz * lit))"
    and "\<bar>nearest64 (of_int sz * lit) - of_int (a * sz) / 5\<bar> \<le> 1 / 20"
    by simp_all
  then have "\<bar>nearest64 (of_int sz * lit) - of_int (a * sz) / 5\<bar> < 1 / 10"
    by linarith
  then have "\<lfloor>nearest64 (of_int sz * lit) + 1 / 2\<rfloor> = (2 * (a * sz) + 5) div 10"
    by (rule round_stable)
  then show ?thesis
    by (simp only: finite Math_round.simps)
qed

lemma Math_round_size_plus_three:
  assumes sz: "\<bar>sz\<bar> \<le> 10 ^ 14"
    and lit: "\<bar>lit - of_int 2 / 5\<bar> \<le> 1 / 2 ^ 52" and bound: "\<bar>lit\<bar> \<le> 2"
  shows "Math_round (number_add (number_mult (Finite (of_int sz)) (Finite lit)) (Finite 3))
    = Finite (of_int ((4 * sz + 35) div 10))"
proof -
  let ?y = "nearest64 (of_int sz * lit)"
  from size_product [OF assms]
  have finite: "number_mult (Finite (of_int sz)) (Finite lit) = Finite ?y"
    and near: "\<bar>?y - of_int (2 * sz) / 5\<bar> \<le> 1 / 20"
    by simp_all
  have "\<bar>(of_int (2 * sz) :: rat) / 5\<bar> = 2 / 5 * \<bar>of_int sz\<bar>"
    by (simp add: abs_mult)
  also have "\<dots> \<le> 2 / 5 * 10 ^ 14"
    using size_bound_rat [OF sz] by (intro mult_left_mono) simp_all
  finally have "\<bar>(of_int (2 * sz) :: rat) / 5\<bar> \<le> 2 / 5 * 10 ^ 14" .
  with near have y: "\<bar>?y + 3\<bar> \<le> 2 / 5 * 10 ^ 14 + 4"
    by linarith
  have "(2 / 5 * 10 ^ 14 + 4 :: rat) \<le> 2 ^ 1023" by simp
  with y have "\<bar>?y + 3\<bar> \<le> 2 ^ 1023" by (rule order_trans)
  then have sum: "number_add (Finite ?y) (Finite 3) = Finite (nearest64 (?y + 3))"
    by (simp only: number_add.simps to_number_small)
  have "\<bar>nearest64 (?y + 3) - (?y + 3)\<bar> \<le> \<bar>?y + 3\<bar> / 2 ^ 53 + 1 / 2 ^ 1075"
    by (rule nearest64_error_weak)
  also have "\<dots> \<le> (2 / 5 * 10 ^ 14 + 4) / 2 ^ 53 + 1 / 2 ^ 1075"
    using y by (simp add: divide_right_mono)
  also have "\<dots> \<le> 1 / 40" by simp
  finally have e: "\<bar>nearest64 (?y + 3) - (?y + 3)\<bar> \<le> 1 / 40" .
  have "(of_int (2 * sz + 15) :: rat) / 5 = of_int (2 * sz) / 5 + 3"
    by simp
  with near e have "\<bar>nearest64 (?y + 3) - of_int (2 * sz + 15) / 5\<bar> < 1 / 10"
    by linarith
  then have "\<lfloor>nearest64 (?y + 3) + 1 / 2\<rfloor> = (2 * (2 * sz + 15) + 5) div 10"
    by (rule round_stable)
  moreover have "2 * (2 * sz + 15) + 5 = 4 * sz + 35" by simp
  ultimately have "\<lfloor>nearest64 (?y + 3) + 1 / 2\<rfloor> = (4 * sz + 35) div 10"
    by (simp only:)
  then show ?thesis
    by (simp only: finite sum Math_round.simps)
qed

lemma Math_round_whole: "Math_round (Finite (of_int n)) = Finite (of_int n)"
proof -
  have "\<lfloor>(of_int n :: rat) + 1 / 2\<rfloor> = n"
    by (rule floor_unique) simp_all
  then show ?thesis by simp
qed

lemma Math_round_size_whole:
  assumes sz: "\<bar>sz\<bar> \<le> 10 ^ 14" and a: "0 \<le> a" "a \<le> 12"
  shows "Math_round (number_mult (Finite (of_int sz)) (Finite (of_int a)))
    = Finite (of_int (sz * a))"
proof -
  have "\<bar>sz * a\<bar> = \<bar>sz\<bar> * a"
    using a(1) by (simp add: abs_mult)
  also have "\<dots> \<le> 10 ^ 14 * 12"
    using sz a by (intro mult_mono) simp_all
  also have "\<dots> \<le> 2 ^ 53" by simp
  finally have small: "\<bar>sz * a\<bar> \<le> 2 ^ 53" .
  then have fixed: "nearest64 (of_int (sz * a)) = of_int (sz * a)"
    by (rule nearest64_of_int)
  from small have "(of_int \<bar>sz * a\<bar> :: rat) \<le> of_int (2 ^ 53)"
    by (simp only: of_int_le_iff)
  then have "\<bar>of_int (sz * a) :: rat\<bar> \<le> 2 ^ 53" by simp
  moreover have "(2 ^ 53 :: rat) \<le> 2 ^ 1023" by simp
  ultimately have "\<bar>of_int (sz * a) :: rat\<bar> \<le> 2 ^ 1023" by (rule order_trans)
  then have "to_number (of_int (sz * a)) = Finite (of_int (sz * a))"
    by (simp only: to_number_small fixed)
  moreover have "(of_int sz :: rat) * of_int a = of_int (sz * a)" by simp
  ultimately have "number_mult (Finite (of_int sz)) (Finite (of_int a)) = Finite (of_int (sz * a))"
    by (simp only: number_mult.simps)
  then show ?thesis
    by (simp only: Math_round_whole)
qed

lemma Math_round_size_halves:
  assumes sz: "\<bar>sz\<bar> \<le> 10 ^ 14"
  shows "Math_round (number_mult (Finite (of_int sz)) (Finite (3 / 2)))
    = Finite (of_int ((3 * sz + 1) div 2))"
proof -
  let ?x = "(of_int sz :: rat) * (3 / 2)"
  have form: "?x = of_int (3 * sz) * 2 powi (- 1)"
    by (simp add: power_int_minus_divide)
  from sz have "\<bar>3 * sz\<bar> < 2 ^ 53" by simp
  then have "nearest64 (of_int (3 * sz) * 2 powi (- 1)) = of_int (3 * sz) * 2 powi (- 1)"
    by (rule nearest64_exact) simp
  then have fixed: "nearest64 ?x = ?x"
    by (simp only: form)
  have "\<bar>?x\<bar> = \<bar>of_int sz\<bar> * (3 / 2)"
    by (simp add: abs_mult)
  also have "\<dots> \<le> 10 ^ 14 * (3 / 2)"
    using size_bound_rat [OF sz] by (intro mult_right_mono) simp_all
  also have "\<dots> \<le> 2 ^ 1023" by simp
  finally have "to_number ?x = Finite ?x"
    by (simp only: to_number_small fixed)
  then have product: "number_mult (Finite (of_int sz)) (Finite (3 / 2)) = Finite ?x"
    by (simp only: number_mult.simps)
  have "?x + 1 / 2 = of_int (3 * sz + 1) / of_int 2"
    by simp
  then have "\<lfloor>?x + 1 / 2\<rfloor> = (3 * sz + 1) div 2"
    by (simp only: floor_divide_of_int_eq)
  then show ?thesis
    by (simp only: product Math_round.simps)
qed

lemma Math_round_size:
  assumes "\<bar>sz\<bar> \<le> 10 ^ 14"
  shows
    "Math_round (number_mult (Finite (of_int sz)) (literal 10)) = Finite (of_int (sz * 10))"
    "Math_round (number_mult (Finite (of_int sz)) (literal 12)) = Finite (of_int (sz * 12))"
    "Math_round (number_mult (Finite (of_int sz)) (literal (12 / 10)))
       = Finite (of_int ((12 * sz + 5) div 10))"
    "Math_round (number_mult (Finite (of_int sz)) (literal (15 / 10)))
       = Finite (of_int ((3 * sz + 1) div 2))"
    "Math_round (number_add (number_mult (Finite (of_int sz)) (literal (4 / 10))) (literal 3))
       = Finite (of_int ((4 * sz + 35) div 10))"
    "Math_round (number_mult (Finite (of_int sz)) (literal (6 / 10)))
       = Finite (of_int ((6 * sz + 5) div 10))"
    "Math_round (number_mult (Finite (of_int sz)) (literal (8 / 10)))
       = Finite (of_int ((8 * sz + 5) div 10))"
proof -
  show "Math_round (number_mult (Finite (of_int sz)) (literal 10)) = Finite (of_int (sz * 10))"
    unfolding literals using Math_round_size_whole [OF assms, of 10] by simp
  show "Math_round (number_mult (Finite (of_int sz)) (literal 12)) = Finite (of_int (sz * 12))"
    unfolding literals using Math_round_size_whole [OF assms, of 12] by simp
  show "Math_round (number_mult (Finite (of_int sz)) (literal (12 / 10)))
       = Finite (of_int ((12 * sz + 5) div 10))"
    unfolding literals using Math_round_size_fifths [OF assms, of "5404319552844595 / 4503599627370496" 6] by simp
  show "Math_round (number_mult (Finite (of_int sz)) (literal (15 / 10)))
       = Finite (of_int ((3 * sz + 1) div 2))"
    unfolding literals using Math_round_size_halves [OF assms] by simp
  show "Math_round (number_add (number_mult (Finite (of_int sz)) (literal (4 / 10))) (literal 3))
       = Finite (of_int ((4 * sz + 35) div 10))"
    unfolding literals using Math_round_size_plus_three [OF assms, of "3602879701896397 / 9007199254740992"] by simp
  show "Math_round (number_mult (Finite (of_int sz)) (literal (6 / 10)))
       = Finite (of_int ((6 * sz + 5) div 10))"
    unfolding literals using Math_round_size_fifths [OF assms, of "5404319552844595 / 9007199254740992" 3] by simp
  show "Math_round (number_mult (Finite (of_int sz)) (literal (8 / 10)))
       = Finite (of_int ((8 * sz + 5) div 10))"
    unfolding literals using Math_round_size_fifths [OF assms, of "3602879701896397 / 4503599627370496" 4] by simp
qed

lemma Number_toString_whole:
  assumes "\<bar>n\<bar> \<le> 2 ^ 53"
  shows "Number_toString (Finite (of_int n))
    = (if n < 0 then ''-'' @ digits (nat (- n)) else digits (nat n))"
proof -
  from assms have "(of_int \<bar>n\<bar> :: rat) \<le> of_int (2 ^ 53)"
    by (simp only: of_int_le_iff)
  then have bound: "\<bar>of_int n :: rat\<bar> \<le> 2 ^ 53" by simp
  have whole: "positive_toString (of_int m) = digits (nat m)" if "(of_int m :: rat) \<le> 2 ^ 53" for m
    using that by (simp add: positive_toString_def)
  consider "n = 0" | "n < 0" | "0 < n" by linarith
  then show ?thesis
  proof cases
    case 1
    then show ?thesis by (simp add: digits.simps [of 0])
  next
    case 2
    from bound have "(of_int (- n) :: rat) \<le> 2 ^ 53" by (simp add: abs_le_iff)
    from whole [OF this] 2 show ?thesis by simp
  next
    case 3
    from bound have "(of_int n :: rat) \<le> 2 ^ 53" by (simp add: abs_le_iff)
    from whole [OF this] 3 show ?thesis by simp
  qed
qed

text \<open>
  Claim C9, as stated, fails. It says that the icon of an unlisted size is selected
  by the bands \<open>size \<ge> 40\<close>, \<open>size \<ge> 20\<close>, \<open>size \<ge> 16\<close>, \<open>size \<ge> 14\<close>,
  \<open>size \<ge> 12\<close>, else. The sizes 9 and 11 are both unlisted and both in the last
  band, and they get different icons: the source selects the icon by \<open>size \<ge> 16\<close>
  and \<open>size \<ge> 10\<close>, and 10 is not a boundary of the documented bands.
\<close>

theorem default_icon_counterexample:
  "size_skip ((rawApiData ! 0)\<lparr> size_skip := 9 \<rparr>) \<notin> {4, 6, 8, 10, 12}
   \<and> size_skip ((rawApiData ! 0)\<lparr> size_skip := 11 \<rparr>) \<notin> {4, 6, 8, 10, 12}
   \<and> documented_band (size_skip ((rawApiData ! 0)\<lparr> size_skip := 9 \<rparr>))
       = documented_band (size_skip ((rawApiData ! 0)\<lparr> size_skip := 11 \<rparr>))
   \<and> icon (transformApiDataToSkip ((rawApiData ! 0)\<lparr> size_skip := 9 \<rparr>)) = Home
   \<and> icon (transformApiDataToSkip ((rawApiData ! 0)\<lparr> size_skip := 11 \<rparr>)) = Building
   \<and> icon (transformApiDataToSkip ((rawApiData ! 0)\<lparr> size_skip := 9 \<rparr>))
       \<noteq> icon (transformApiDataToSkip ((rawApiData ! 0)\<lparr> size_skip := 11 \<rparr>))"
  by (simp add: transform_display_fields getDisplayProperties_default defaultConfig_def
      documented_band_def)

lemma defaultConfig_same_band:
  "documented_band sz' = documented_band sz \<Longrightarrow>
     DisplayProps.gradient (defaultConfig sz') = DisplayProps.gradient (defaultConfig sz)
   \<and> DisplayProps.bestFor (defaultConfig sz') = DisplayProps.bestFor (defaultConfig sz)
   \<and> DisplayProps.useCases (defaultConfig sz') = DisplayProps.useCases (defaultConfig sz)"
proof -
  assume same: "documented_band sz' = documented_band sz"
  then have bands: "(40 \<le> sz') = (40 \<le> sz)" "(20 \<le> sz') = (20 \<le> sz)" "(16 \<le> sz') = (16 \<le> sz)"
    "(14 \<le> sz') = (14 \<le> sz)" "(12 \<le> sz') = (12 \<le> sz)"
    by (simp_all add: documented_band_def split: if_splits)
  show ?thesis
    by (simp add: defaultConfig_def bands)
qed

text \<open>
  Claim C9, amended. For every raw record whose size is none of 4, 6, 8, 10, 12, the
  decoration has: the icon selected by \<open>size \<ge> 16\<close>, \<open>size \<ge> 10\<close>, else; the gradient
  selected by the six documented bands; the description selected by \<open>size \<ge> 20\<close>,
  \<open>size \<ge> 16\<close>, \<open>size \<ge> 12\<close>, else, where the last case spells the size out;
  use-case percentages 90, 80, 70; and gradient, best-for labels and use cases that
  are the same for any two unlisted sizes of the same documented band. When the size
  is a whole number of magnitude at most \<open>10 ^ 14\<close>, the floating-point products are
  exact or close enough to the exact ones for the rounding to be that of whole-number
  arithmetic: the capacity is \<open>size * 10\<close>-\<open>size * 12\<close> bin bags, the dimensions are
  \<open>round(1.2 * size)\<close>, \<open>round(1.5 * size)\<close> and \<open>round(0.4 * size + 3)\<close> feet and the
  weight is \<open>round(0.6 * size)\<close>-\<open>round(0.8 * size)\<close> tonnes, each rounded half up.
\<close>

theorem default_metadata_by_size:
  "size_skip r \<notin> {4, 6, 8, 10, 12} \<longrightarrow>
    (icon (transformApiDataToSkip r)
       = (if size_skip r \<ge> 16 then Factory else if size_skip r \<ge> 10 then Building else Home)
   \<and> gradient (transformApiDataToSkip r)
       = (if size_skip r \<ge> 40 then ''from-slate-600 via-gray-700 to-zinc-800''
          else if size_skip r \<ge> 20 then ''from-red-500 via-red-700 to-red-900''
          else if size_skip r \<ge> 16 then ''from-cyan-400 via-teal-500 to-emerald-600''
          else if size_skip r \<ge> 14 then ''from-indigo-400 via-blue-600 to-blue-900''
          else if size_skip r \<ge> 12 then ''from-yellow-400 via-amber-500 to-orange-600''
          else ''from-slate-400 via-gray-500 to-zinc-600'')
   \<and> description (transformApiDataToSkip r)
       = (if size_skip r \<ge> 20 then ''Industrial-grade solution for major projects''
          else if size_skip r \<ge> 16 then ''Large commercial and construction projects''
          else if size_skip r \<ge> 12 then ''Heavy-duty commercial applications''
          else Number_toString (Finite (of_int (size_skip r)))
            @ '' yard skip for medium to large projects'')
   \<and> map percentage (useCases (transformApiDataToSkip r)) = [90, 80, 70]
   \<and> (\<forall>r'. size_skip r' \<notin> {4, 6, 8, 10, 12}
           \<and> documented_band (size_skip r') = documented_band (size_skip r) \<longrightarrow>
           gradient (transformApiDataToSkip r') = gradient (transformApiDataToSkip r)
         \<and> bestFor (transformApiDataToSkip r') = bestFor (transformApiDataToSkip r)
         \<and> useCases (transformApiDataToSkip r') = useCases (transformApiDataToSkip r))
   \<and> (\<bar>size_skip r\<bar> \<le> 10 ^ 14 \<longrightarrow>
         capacity (transformApiDataToSkip r)
           = Number_toString (Finite (of_int (size_skip r * 10))) @ ''-'' @
             Number_toString (Finite (of_int (size_skip r * 12))) @ '' bin bags''
       \<and> dimensions (transformApiDataToSkip r)
           = Number_toString (Finite (of_int ((12 * size_skip r + 5) div 10))) @
             ''ft '' @ times_sign @ '' '' @
             Number_toString (Finite (of_int ((3 * size_skip r + 1) div 2))) @
             ''ft '' @ times_sign @ '' '' @
             Number_toString (Finite (of_int ((4 * size_skip r + 35) div 10))) @ ''ft''
       \<and> weight (transformApiDataToSkip r)
           = Number_toString (Finite (of_int ((6 * size_skip r + 5) div 10))) @ ''-'' @
             Number_toString (Finite (of_int ((8 * size_skip r + 5) div 10))) @ '' tonnes''))"
  (is "_ \<longrightarrow> ?concl")
proof
  assume unlisted: "size_skip r \<notin> {4, 6, 8, 10, 12}"
  let ?sz = "size_skip r"
  have fallback: "getDisplayProperties r = defaultConfig ?sz"
    using unlisted by (rule getDisplayProperties_default)
  have icon_eq: "icon (transformApiDataToSkip r)
       = (if ?sz \<ge> 16 then Factory else if ?sz \<ge> 10 then Building else Home)"
    by (simp add: transform_display_fields fallback defaultConfig_def)
  have gradient_eq: "gradient (transformApiDataToSkip r)
       = (if ?sz \<ge> 40 then ''from-slate-600 via-gray-700 to-zinc-800''
          else if ?sz \<ge> 20 then ''from-red-500 via-red-700 to-red-900''
          else if ?sz \<ge> 16 then ''from-cyan-400 via-teal-500 to-emerald-600''
          else if ?sz \<ge> 14 then ''from-indigo-400 via-blue-600 to-blue-900''
          else if ?sz \<ge> 12 then ''from-yellow-400 via-amber-500 to-orange-600''
          else ''from-slate-400 via-gray-500 to-zinc-600'')"
    by (simp add: transform_display_fields fallback defaultConfig_def)
  have description_eq: "description (transformApiDataToSkip r)
       = (if ?sz \<ge> 20 then ''Industrial-grade solution for major projects''
          else if ?sz \<ge> 16 then ''Large commercial and construction projects''
          else if ?sz \<ge> 12 then ''Heavy-duty commercial applications''
          else Number_toString (Finite (of_int ?sz))
            @ '' yard skip for medium to large projects'')"
    unfolding transform_display_fields fallback by (simp add: defaultConfig_def)
  have percentages: "map percentage (useCases (transformApiDataToSkip r)) = [90, 80, 70]"
    by (simp add: transform_display_fields fallback defaultConfig_def)
  have banded: "\<forall>r'. size_skip r' \<notin> {4, 6, 8, 10, 12}
           \<and> documented_band (size_skip r') = documented_band ?sz \<longrightarrow>
           gradient (transformApiDataToSkip r') = gradient (transformApiDataToSkip r)
         \<and> bestFor (transformApiDataToSkip r') = bestFor (transformApiDataToSkip r)
         \<and> useCases (transformApiDataToSkip r') = useCases (transformApiDataToSkip r)"
  proof (intro allI impI)
    fix r' :: SkipApiData
    assume other: "size_skip r' \<notin> {4, 6, 8, 10, 12}
        \<and> documented_band (size_skip r') = documented_band ?sz"
    then have "getDisplayProperties r' = defaultConfig (size_skip r')"
      by (intro getDisplayProperties_default) simp
    with other fallback defaultConfig_same_band [of "size_skip r'" ?sz]
    show "gradient (transformApiDataToSkip r') = gradient (transformApiDataToSkip r)
         \<and> bestFor (transformApiDataToSkip r') = bestFor (transformApiDataToSkip r)
         \<and> useCases (transformApiDataToSkip r') = useCases (transformApiDataToSkip r)"
      by (simp add: transform_display_fields)
  qed
  have capacity_round: "capacity (transformApiDataToSkip r)
       = Number_toString (Math_round (number_mult (Finite (of_int ?sz)) (literal 10))) @ ''-'' @
         Number_toString (Math_round (number_mult (Finite (of_int ?sz)) (literal 12))) @
         '' bin bags''"
    unfolding transform_display_fields fallback by (simp add: defaultConfig_def)
  have dimensions_round: "dimensions (transformApiDataToSkip r)
       = Number_toString (Math_round (number_mult (Finite (of_int ?sz)) (literal (12 / 10)))) @
         ''ft '' @ times_sign @ '' '' @
         Number_toString (Math_round (number_mult (Finite (of_int ?sz)) (literal (15 / 10)))) @
         ''ft '' @ times_sign @ '' '' @
         Number_toString
           (Math_round (number_add (number_mult (Finite (of_int ?sz)) (literal (4 / 10)))
              (literal 3))) @
         ''ft''"
    unfolding transform_display_fields fallback defaultConfig_def by (simp only: DisplayProps.simps)
  have weight_round: "weight (transformApiDataToSkip r)
       = Number_toString (Math_round (number_mult (Finite (of_int ?sz)) (literal (6 / 10)))) @
         ''-'' @
         Number_toString (Math_round (number_mult (Finite (of_int ?sz)) (literal (8 / 10)))) @
         '' tonnes''"
    unfolding transform_display_fields fallback defaultConfig_def by (simp only: DisplayProps.simps)
  have strings: "capacity (transformApiDataToSkip r)
           = Number_toString (Finite (of_int (?sz * 10))) @ ''-'' @
             Number_toString (Finite (of_int (?sz * 12))) @ '' bin bags''
       \<and> dimensions (transformApiDataToSkip r)
           = Number_toString (Finite (of_int ((12 * ?sz + 5) div 10))) @
             ''ft '' @ times_sign @ '' '' @
             Number_toString (Finite (of_int ((3 * ?sz + 1) div 2))) @
             ''ft '' @ times_sign @ '' '' @
             Number_toString (Finite (of_int ((4 * ?sz + 35) div 10))) @ ''ft''
       \<and> weight (transformApiDataToSkip r)
           = Number_toString (Finite (of_int ((6 * ?sz + 5) div 10))) @ ''-'' @
             Number_toString (Finite (of_int ((8 * ?sz + 5) div 10))) @ '' tonnes''"
    if bounded: "\<bar>?sz\<bar> \<le> 10 ^ 14"
    unfolding capacity_round dimensions_round weight_round
    by (simp only: Math_round_size [OF bounded] simp_thms)
  show ?concl
    by (intro conjI impI)
      (rule icon_eq gradient_eq description_eq percentages banded
        strings [THEN conjunct1] strings [THEN conjunct2, THEN conjunct1]
        strings [THEN conjunct2, THEN conjunct2], assumption?)+
qed

theorem default_metadata_by_size_witness:
  "size_skip (rawApiData ! 5) \<notin> {4, 6, 8, 10, 12}
   \<and> \<bar>size_skip (rawApiData ! 5)\<bar> \<le> 10 ^ 14
   \<and> icon (transformApiDataToSkip (rawApiData ! 5)) = Building
   \<and> gradient (transformApiDataToSkip (rawApiData ! 5))
       = ''from-indigo-400 via-blue-600 to-blue-900''
   \<and> capacity (transformApiDataToSkip (rawApiData ! 5)) = ''140-168 bin bags''
   \<and> dimensions (transformApiDataToSkip (rawApiData ! 5))
       = ''17ft '' @ times_sign @ '' 21ft '' @ times_sign @ '' 9ft''
   \<and> weight (transformApiDataToSkip (rawApiData ! 5)) = ''8-11 tonnes''"
proof -
  have sz: "size_skip (rawApiData ! 5) = 14"
    by (simp add: rawApiData_def)
  have unlisted: "size_skip (rawApiData ! 5) \<notin> {4, 6, 8, 10, 12}"
    by (simp add: sz)
  have bounded: "\<bar>size_skip (rawApiData ! 5)\<bar> \<le> 10 ^ 14"
    by (simp add: sz)
  from default_metadata_by_size [of "rawApiData ! 5"] unlisted bounded show ?thesis
    by (simp add: sz positive_toString_def digits.simps)
qed

end
